theory Spec2Isabelle
  imports Complex_Main
begin

section \<open>Conventions of the embedding\<close>

text \<open>
  The development embeds \<^verbatim>\<open>lf::base::RefEl\<close> (ref_el.h) and the hierarchic
  finite elements of \<^verbatim>\<open>lf::fe\<close> (hierarchic_fe.h).

  \<^item> \<^verbatim>\<open>double\<close> and \<^verbatim>\<open>SCALAR\<close> are the real numbers: rounding, infinities and
    NaN of IEEE arithmetic are not represented. A division whose divisor is
    zero is a failure of the model (\<open>DivisionByZero\<close>).
  \<^item> \<^verbatim>\<open>char\<close> arguments of \<^verbatim>\<open>RefEl\<close> are \<open>int\<close> (they may be negative).
  \<^item> \<^verbatim>\<open>unsigned\<close> values (32 bits) are natural numbers below \<open>2 ^ 32\<close>. The
    value of an unsigned sum or product is reduced modulo \<open>2 ^ 32\<close> (\<open>u32\<close>);
    reducing an expression of sums and products once gives the value that
    reducing at every operation gives. An unsigned subtraction is written
    with its wrap-around (\<open>unsigned_sub\<close>).
  \<^item> The value of an \<^verbatim>\<open>int\<close> expression (32 bits; the counters of the loops
    are \<^verbatim>\<open>int\<close> and never negative) is checked with \<open>int_expr\<close>: a value of
    \<open>2 ^ 31\<close> or more, a signed overflow or a conversion that does not fit,
    is the failure \<open>IntOverflow\<close>. Every loop body evaluates an expression
    above its counter, so the increment of a counter needs no check of its own.
  \<^item> The number of columns \<^verbatim>\<open>degree_ + 1\<close> in the segment's
    \<^verbatim>\<open>ComputeEvaluationNodes\<close> is kept as a natural number, the code's value
    for every degree below \<open>2 ^ 32 - 1\<close>.
  \<^item> Every failure of the source is a value \<open>Inl e\<close> of the result type.
  \<^item> Names are the source's; a member \<^verbatim>\<open>name_\<close> is written without its final
    underscore.
\<close>

datatype error =
    InvalidArgument    \<comment> \<open>a violated \<^verbatim>\<open>LF_ASSERT_MSG\<close> / \<^verbatim>\<open>LF_ASSERT_MSG_CONSTEXPR\<close>\<close>
  | VerifyFailed       \<comment> \<open>\<^verbatim>\<open>LF_VERIFY_MSG(false, ...)\<close>\<close>
  | OutOfBounds        \<comment> \<open>an index outside of a matrix, an array or a span\<close>
  | DivisionByZero     \<comment> \<open>a floating-point division by zero\<close>
  | Uninitialised      \<comment> \<open>a read of a matrix coefficient that was never written\<close>
  | IntOverflow        \<comment> \<open>a value outside of the range of \<^verbatim>\<open>int\<close>\<close>

type_synonym 'a result = "error + 'a"

text \<open>Sequencing of computations that may fail: the first failure is the result.\<close>

definition bind :: "'a result \<Rightarrow> ('a \<Rightarrow> 'b result) \<Rightarrow> 'b result" where
  "bind m f = (case m of Inl e \<Rightarrow> Inl e | Inr v \<Rightarrow> f v)"

text \<open>
  Modelled from the spec: the macros \<^verbatim>\<open>LF_ASSERT_MSG_CONSTEXPR\<close> and
  \<^verbatim>\<open>LF_ASSERT_MSG\<close> come from lf_assert.h, which is not among the sources.
  Following sections 4.1 and 7 of the specification, a violated assertion fails
  immediately with \<open>InvalidArgument\<close>; a satisfied one continues.
\<close>

definition LF_ASSERT_MSG :: "bool \<Rightarrow> 'a result \<Rightarrow> 'a result" where
  "LF_ASSERT_MSG cond continue = (if cond then continue else Inl InvalidArgument)"

text \<open>Subtraction of two \<^verbatim>\<open>unsigned\<close> values (32 bits), with its wrap-around.\<close>

definition unsigned_sub :: "nat \<Rightarrow> nat \<Rightarrow> nat" where
  "unsigned_sub a b = (if b \<le> a then a - b else a + 2 ^ 32 - b)"

text \<open>The value of a sum or product of \<^verbatim>\<open>unsigned\<close> values.\<close>

definition u32 :: "nat \<Rightarrow> nat" where
  "u32 n = n mod 2 ^ 32"

text \<open>The value of an \<^verbatim>\<open>int\<close> expression that is not negative.\<close>

definition int_expr :: "nat \<Rightarrow> nat result" where
  "int_expr n = (if n < 2 ^ 31 then Inr n else Inl IntOverflow)"

section \<open>Reference elements (ref\_el.h)\<close>

datatype RefElType = kPoint | kSegment | kTria | kQuad

text \<open>\<^verbatim>\<open>sub_sub_entity_index_tria_\<close> and \<^verbatim>\<open>sub_sub_entity_index_quad_\<close>.\<close>

definition sub_sub_entity_index_tria :: "int list list" where
  "sub_sub_entity_index_tria = [[0, 1], [1, 2], [2, 3]]"

definition sub_sub_entity_index_quad :: "int list list" where
  "sub_sub_entity_index_quad = [[0, 1], [1, 2], [2, 3], [3, 0]]"

text \<open>Reading \<^verbatim>\<open>table[i][j]\<close> of a \<^verbatim>\<open>std::array\<close> of arrays.\<close>

definition array_at :: "int list list \<Rightarrow> int \<Rightarrow> int \<Rightarrow> int result" where
  "array_at table i j =
     (if 0 \<le> i \<and> nat i < length table \<and> 0 \<le> j \<and> nat j < length (table ! nat i)
      then Inr (table ! nat i ! nat j) else Inl OutOfBounds)"

fun Dimension :: "RefElType \<Rightarrow> int" where
  "Dimension kPoint = 0"
| "Dimension kSegment = 1"
| "Dimension kTria = 2"
| "Dimension kQuad = 2"

fun NumNodes :: "RefElType \<Rightarrow> int" where
  "NumNodes kPoint = 1"
| "NumNodes kSegment = 2"
| "NumNodes kTria = 3"
| "NumNodes kQuad = 4"

definition NumSubEntities :: "RefElType \<Rightarrow> int \<Rightarrow> int result" where
  "NumSubEntities rtype sub_codim =
     LF_ASSERT_MSG (sub_codim \<ge> 0)
     (LF_ASSERT_MSG (sub_codim \<le> Dimension rtype)
     (if sub_codim = 0 then Inr 1
      else (case rtype of
              kSegment \<Rightarrow> Inr 2
            | kTria \<Rightarrow> Inr 3
            | kQuad \<Rightarrow> Inr 4
            | kPoint \<Rightarrow> Inl VerifyFailed)))"

definition SubType :: "RefElType \<Rightarrow> int \<Rightarrow> int \<Rightarrow> RefElType result" where
  "SubType rtype sub_codim sub_index =
     LF_ASSERT_MSG (sub_codim \<ge> 0)
     (LF_ASSERT_MSG (sub_codim \<le> Dimension rtype)
     (LF_ASSERT_MSG (sub_index \<ge> 0)
     (bind (NumSubEntities rtype sub_codim) (\<lambda>n.
      LF_ASSERT_MSG (sub_index < n)
      (if sub_codim = 0 then Inr rtype
       else if sub_codim = Dimension rtype then Inr kPoint
       else if Dimension rtype - sub_codim = 1 then Inr kSegment
       else Inl VerifyFailed)))))"

definition SubSubEntity2SubEntity ::
  "RefElType \<Rightarrow> int \<Rightarrow> int \<Rightarrow> int \<Rightarrow> int \<Rightarrow> int result" where
  "SubSubEntity2SubEntity rtype sub_codim sub_index sub_sub_codim sub_sub_index =
     LF_ASSERT_MSG (sub_codim \<ge> 0)
     (LF_ASSERT_MSG (sub_codim \<le> Dimension rtype)
     (LF_ASSERT_MSG (sub_index \<ge> 0)
     (bind (NumSubEntities rtype sub_codim) (\<lambda>n.
      LF_ASSERT_MSG (sub_index \<le> n)
     (LF_ASSERT_MSG (sub_sub_codim \<ge> 0)
     (LF_ASSERT_MSG (sub_sub_codim \<le> Dimension rtype - sub_codim)
     (LF_ASSERT_MSG (sub_sub_index \<ge> 0)
     (bind (SubType rtype sub_codim sub_index) (\<lambda>sub_type.
      bind (NumSubEntities sub_type sub_sub_codim) (\<lambda>m.
      LF_ASSERT_MSG (sub_sub_index < m)
      (if rtype = kPoint then Inr 0
       else if sub_codim = 0 then Inr sub_sub_index
       else if sub_codim = Dimension rtype then Inr sub_index
       else (case rtype of
               kTria \<Rightarrow> array_at sub_sub_entity_index_tria sub_index sub_sub_index
             | kQuad \<Rightarrow> array_at sub_sub_entity_index_quad sub_index sub_sub_index
             | _ \<Rightarrow> Inl VerifyFailed))))))))))))"

section \<open>Matrices and loops\<close>

text \<open>
  A dense matrix (\<^verbatim>\<open>Eigen::Matrix\<close>) is the list of its rows; a coefficient is
  \<open>None\<close> until it is written, since Eigen allocates without initialising.
  A row vector of values (\<^verbatim>\<open>Eigen::RowVectorXd\<close>, the value of a row
  expression) is a list of reals. Reads and writes check their indices, as
  Eigen's assertions do, and a read of an unwritten coefficient fails.
\<close>

type_synonym matrix = "real option list list"

definition Matrix :: "nat \<Rightarrow> nat \<Rightarrow> matrix" where
  "Matrix r c = replicate r (replicate c None)"

definition rows :: "matrix \<Rightarrow> nat" where
  "rows M = length M"

definition cols :: "matrix \<Rightarrow> nat" where
  "cols M = (case M of [] \<Rightarrow> 0 | r # _ \<Rightarrow> length r)"

fun mapM :: "('a \<Rightarrow> 'b result) \<Rightarrow> 'a list \<Rightarrow> 'b list result" where
  "mapM f [] = Inr []"
| "mapM f (x # xs) = bind (f x) (\<lambda>y. bind (mapM f xs) (\<lambda>ys. Inr (y # ys)))"

definition read_cell :: "real option \<Rightarrow> real result" where
  "read_cell c = (case c of None \<Rightarrow> Inl Uninitialised | Some v \<Rightarrow> Inr v)"

text \<open>\<^verbatim>\<open>M.row(r)\<close> read as a vector of values.\<close>

definition row :: "matrix \<Rightarrow> nat \<Rightarrow> real list result" where
  "row M r = (if r < length M then mapM read_cell (M ! r) else Inl OutOfBounds)"

text \<open>\<^verbatim>\<open>M.row(r) = v\<close>.\<close>

definition set_row :: "nat \<Rightarrow> real list \<Rightarrow> matrix \<Rightarrow> matrix result" where
  "set_row r v M =
     (if r < length M \<and> length v = length (M ! r) then Inr (M[r := map Some v])
      else Inl OutOfBounds)"

text \<open>\<^verbatim>\<open>M(r, c) = v\<close>.\<close>

definition set_coeff :: "nat \<Rightarrow> nat \<Rightarrow> real \<Rightarrow> matrix \<Rightarrow> matrix result" where
  "set_coeff r c v M =
     (if r < length M \<and> c < length (M ! r) then Inr (M[r := (M ! r)[c := Some v]])
      else Inl OutOfBounds)"

text \<open>\<^verbatim>\<open>M.block(r, c, 1, n) = v.transpose()\<close> for a vector \<open>v\<close>.\<close>

definition set_block_row :: "nat \<Rightarrow> nat \<Rightarrow> nat \<Rightarrow> real list \<Rightarrow> matrix \<Rightarrow> matrix result" where
  "set_block_row r c n v M =
     (if r < length M \<and> c + n \<le> length (M ! r) \<and> length v = n
      then Inr (M[r := take c (M ! r) @ map Some v @ drop (c + n) (M ! r)])
      else Inl OutOfBounds)"

text \<open>
  A vector that is allocated and then written coefficient by coefficient
  (\<^verbatim>\<open>Eigen::RowVectorXd v(n)\<close>, \<^verbatim>\<open>v[i] = x\<close>), and its value when it is read
  as a whole.
\<close>

type_synonym vector = "real option list"

definition RowVectorXd :: "nat \<Rightarrow> vector" where
  "RowVectorXd n = replicate n None"

definition set_elem :: "nat \<Rightarrow> real \<Rightarrow> vector \<Rightarrow> vector result" where
  "set_elem i x v = (if i < length v then Inr (v[i := Some x]) else Inl OutOfBounds)"

definition vector_value :: "vector \<Rightarrow> real list result" where
  "vector_value v = mapM read_cell v"

text \<open>\<^verbatim>\<open>v[i]\<close> of a vector of values.\<close>

definition elem :: "real list \<Rightarrow> nat \<Rightarrow> real result" where
  "elem v i = (if i < length v then Inr (v ! i) else Inl OutOfBounds)"

text \<open>\<^verbatim>\<open>v.unaryExpr(f)\<close>: \<open>f\<close> at every coefficient.\<close>

definition unaryExpr :: "(real \<Rightarrow> real result) \<Rightarrow> real list \<Rightarrow> real list result" where
  "unaryExpr f v = mapM f v"

text \<open>The coefficient-wise product \<^verbatim>\<open>a.array() * b.array()\<close>, sum and difference.\<close>

definition cwise :: "(real \<Rightarrow> real \<Rightarrow> real) \<Rightarrow> real list \<Rightarrow> real list \<Rightarrow> real list result" where
  "cwise f a b = (if length a = length b then Inr (map2 f a b) else Inl OutOfBounds)"

text \<open>A floating-point division; the divisor zero is a failure of the model.\<close>

definition fdiv :: "real \<Rightarrow> real \<Rightarrow> real result" where
  "fdiv a b = (if b = 0 then Inl DivisionByZero else Inr (a / b))"

text \<open>
  \<^verbatim>\<open>for (i : is) body\<close>: the body is run for each counter in turn on the state
  it is handed, and the first failure ends the loop.
\<close>

fun for_loop :: "nat list \<Rightarrow> (nat \<Rightarrow> 's \<Rightarrow> 's result) \<Rightarrow> 's \<Rightarrow> 's result" where
  "for_loop [] body s = Inr s"
| "for_loop (i # is) body s = bind (body i s) (for_loop is body)"

section \<open>Orthogonal polynomials (LegendrePoly, JacobiPoly)\<close>

definition LegendrePoly_eval :: "nat \<Rightarrow> real \<Rightarrow> real result" where
  "LegendrePoly_eval n x0 =
     (let x = 2 * x0 - 1; Ljm1 = 1; Lj = x in
      if n = 0 then Inr Ljm1
      else if n = 1 then Inr Lj
      else bind (for_loop [1..<n] (\<lambda>j (Ljm1, Lj).
                   bind (fdiv (real (u32 (2 * j + 1)) * x * Lj - real j * Ljm1) (real (u32 (j + 1))))
                     (\<lambda>Ljp1. Inr (Lj, Ljp1)))
                 (Ljm1, Lj))
             (\<lambda>(Ljm1, Lj). Inr Lj))"

definition LegendrePoly_integral :: "nat \<Rightarrow> real \<Rightarrow> real result" where
  "LegendrePoly_integral n x0 =
     (if n = 0 then Inr (- 1)
      else if n = 1 then Inr x0
      else (let x = 2 * x0 - 1; Ljm2 = 1; Ljm1 = x in
            bind (fdiv (3 * x * x - 1) 2) (\<lambda>Lj.
            bind (for_loop [2..<n] (\<lambda>j (Ljm2, Ljm1, Lj).
                    bind (fdiv (real (u32 (2 * j + 1)) * x * Lj - real j * Ljm1) (real (u32 (j + 1))))
                      (\<lambda>Ljp1. Inr (Ljm1, Lj, Ljp1)))
                  (Ljm2, Ljm1, Lj))
              (\<lambda>(Ljm2, Ljm1, Lj). fdiv (Lj - Ljm2) (real (unsigned_sub (u32 (4 * n)) 2))))))"

text \<open>\<^verbatim>\<open>JacobiPoly::integral(n, alpha, x)\<close>.\<close>

definition JacobiPoly_integral :: "nat \<Rightarrow> real \<Rightarrow> real \<Rightarrow> real result" where
  "JacobiPoly_integral n alpha x =
     (if n = 0 then Inr (- 1)
      else if n = 1 then Inr x
      else (let ajp1P = 2 * 2 * (2 + alpha) * (2 * 2 + alpha - 2);
                bjp1P = 2 * 2 + alpha - 1;
                cjp1P = (2 * 2 + alpha) * (2 * 2 + alpha - 2);
                djp1P = 2 * (2 + alpha - 1) * (2 - 1) * (2 * 2 + alpha);
                Pjm2 = 1;
                Pjm1 = (2 + alpha) * x - 1
            in
            bind (fdiv (bjp1P * (cjp1P * (2 * x - 1) + alpha * alpha) * Pjm1 - djp1P * Pjm2)
                    ajp1P) (\<lambda>Pj.
            bind (for_loop [2..<n] (\<lambda>j (Pjm2, Pjm1, Pj).
                    let ajp1P = real (u32 (2 * (j + 1))) * (real (u32 (j + 1)) + alpha)
                                  * (real (u32 (2 * (j + 1))) + alpha - 2);
                        bjp1P = real (u32 (2 * (j + 1))) + alpha - 1;
                        cjp1P = (real (u32 (2 * (j + 1))) + alpha)
                                  * (real (u32 (2 * (j + 1))) + alpha - 2);
                        djp1P = 2 * (real (u32 (j + 1)) + alpha - 1) * real (unsigned_sub (u32 (j + 1)) 1)
                                  * (real (u32 (2 * (j + 1))) + alpha)
                    in bind (fdiv (bjp1P * (cjp1P * (2 * x - 1) + alpha * alpha) * Pj
                                    - djp1P * Pjm1) ajp1P)
                         (\<lambda>Pjp1. Inr (Pjm1, Pj, Pjp1)))
                  (Pjm2, Pjm1, Pj))
              (\<lambda>(Pjm2, Pjm1, Pj).
            bind (fdiv (real n + alpha)
                    ((real (u32 (2 * n)) + alpha - 1) * (real (u32 (2 * n)) + alpha))) (\<lambda>anL.
            bind (fdiv alpha
                    ((real (u32 (2 * n)) + alpha - 2) * (real (u32 (2 * n)) + alpha))) (\<lambda>bnL.
            bind (fdiv (real (unsigned_sub n 1))
                    ((real (u32 (2 * n)) + alpha - 2) * (real (u32 (2 * n)) + alpha - 1))) (\<lambda>cnL.
            Inr (anL * Pj + bnL * Pjm1 - cnL * Pjm2))))))))"

section \<open>The segment (FeHierarchicSegment)\<close>

datatype Orientation = positive | negative

text \<open>
  The members \<^verbatim>\<open>degree_\<close>, \<^verbatim>\<open>eval_nodes_\<close> and \<^verbatim>\<open>rel_orient_\<close> of the class.
\<close>

record FeHierarchicSegment =
  segment_degree :: nat
  segment_eval_nodes :: matrix
  segment_rel_orient :: "Orientation list"

text \<open>\<^verbatim>\<open>NumRefShapeFunctions()\<close> and \<^verbatim>\<open>NumRefShapeFunctions(dim_t codim)\<close>.\<close>

definition Segment_NumRefShapeFunctions :: "FeHierarchicSegment \<Rightarrow> nat" where
  "Segment_NumRefShapeFunctions fe = u32 (segment_degree fe + 1)"

definition Segment_NumRefShapeFunctions_codim :: "FeHierarchicSegment \<Rightarrow> nat \<Rightarrow> nat" where
  "Segment_NumRefShapeFunctions_codim fe codim =
     (if codim = 0 then unsigned_sub (segment_degree fe) 1 else 1)"

text \<open>
  \<^verbatim>\<open>EvalReferenceShapeFunctions\<close> and \<^verbatim>\<open>GradientsReferenceShapeFunctions\<close>. The
  counter \<open>i\<close> is an \<^verbatim>\<open>int\<close>; the loop condition compares it as an unsigned value
  with \<^verbatim>\<open>degree_ - 1\<close>. The row index \<^verbatim>\<open>i + 2\<close> is the largest \<^verbatim>\<open>int\<close> expression
  of the body (\<^verbatim>\<open>i + 1\<close> is below it).
\<close>

definition Segment_EvalReferenceShapeFunctions ::
  "FeHierarchicSegment \<Rightarrow> matrix \<Rightarrow> matrix result" where
  "Segment_EvalReferenceShapeFunctions fe refcoords =
     LF_ASSERT_MSG (rows refcoords = 1)
     (let result = Matrix (Segment_NumRefShapeFunctions fe) (cols refcoords) in
      bind (row refcoords 0) (\<lambda>xs.
      bind (unaryExpr (\<lambda>x. Inr (1 - x)) xs) (\<lambda>r0.
      bind (set_row 0 r0 result) (\<lambda>result.
      bind (unaryExpr (\<lambda>x. Inr x) xs) (\<lambda>r1.
      bind (set_row 1 r1 result) (\<lambda>result.
      for_loop [0..<unsigned_sub (segment_degree fe) 1] (\<lambda>i result.
        bind (int_expr (i + 2)) (\<lambda>k.
        bind (unaryExpr (\<lambda>x. LegendrePoly_integral k x) xs) (\<lambda>r.
        set_row k r result))) result))))))"

definition Segment_GradientsReferenceShapeFunctions ::
  "FeHierarchicSegment \<Rightarrow> matrix \<Rightarrow> matrix result" where
  "Segment_GradientsReferenceShapeFunctions fe refcoords =
     LF_ASSERT_MSG (rows refcoords = 1)
     (let result = Matrix (Segment_NumRefShapeFunctions fe) (cols refcoords) in
      bind (row refcoords 0) (\<lambda>xs.
      bind (unaryExpr (\<lambda>x. Inr (- 1)) xs) (\<lambda>r0.
      bind (set_row 0 r0 result) (\<lambda>result.
      bind (unaryExpr (\<lambda>x. Inr 1) xs) (\<lambda>r1.
      bind (set_row 1 r1 result) (\<lambda>result.
      for_loop [0..<unsigned_sub (segment_degree fe) 1] (\<lambda>i result.
        bind (int_expr (i + 2)) (\<lambda>k.
        bind (unaryExpr (\<lambda>x. LegendrePoly_eval (i + 1) x) xs) (\<lambda>r.
        set_row k r result))) result))))))"

definition Segment_EvaluationNodes :: "FeHierarchicSegment \<Rightarrow> matrix" where
  "Segment_EvaluationNodes fe = segment_eval_nodes fe"

definition Segment_NumEvaluationNodes :: "FeHierarchicSegment \<Rightarrow> nat" where
  "Segment_NumEvaluationNodes fe = u32 (segment_degree fe + 1)"

text \<open>
  \<^verbatim>\<open>NodalValuesToDofs\<close> hands the transposed matrix of the shape functions at the
  evaluation nodes to Eigen's \<^verbatim>\<open>fullPivHouseholderQr().solve\<close>. The solver
  belongs to Eigen and is a parameter \<open>solve\<close> here: a function of the
  matrix and of the right-hand side.
\<close>

definition Segment_NodalValuesToDofs ::
  "(real list list \<Rightarrow> real list \<Rightarrow> real list) \<Rightarrow> FeHierarchicSegment \<Rightarrow> real list \<Rightarrow>
   real list result" where
  "Segment_NodalValuesToDofs solve fe nodevals =
     bind (Segment_EvalReferenceShapeFunctions fe (Segment_EvaluationNodes fe))
       (\<lambda>shape_functions_at_nodes.
     bind (mapM (mapM read_cell) shape_functions_at_nodes) (\<lambda>V.
     Inr (solve (transpose V) nodevals)))"

text \<open>
  \<^verbatim>\<open>ComputeEvaluationNodes\<close>. The function \<^verbatim>\<open>chebyshevNodes\<close> is declared in
  the header and defined elsewhere; it is the parameter \<open>chebyshevNodes\<close>.
\<close>

definition Segment_ComputeEvaluationNodes :: "(nat \<Rightarrow> real list) \<Rightarrow> nat \<Rightarrow> matrix result" where
  "Segment_ComputeEvaluationNodes chebyshevNodes degree =
     (let nodes = Matrix 1 (degree + 1) in
      bind (set_coeff 0 0 0 nodes) (\<lambda>nodes.
      bind (set_coeff 0 1 1 nodes) (\<lambda>nodes.
      if degree > 1
      then set_block_row 0 2 (unsigned_sub degree 1)
             (chebyshevNodes (unsigned_sub degree 1)) nodes
      else Inr nodes)))"

text \<open>The constructor \<^verbatim>\<open>FeHierarchicSegment(degree, rel_orient)\<close>.\<close>

definition new_FeHierarchicSegment ::
  "(nat \<Rightarrow> real list) \<Rightarrow> nat \<Rightarrow> Orientation list \<Rightarrow> FeHierarchicSegment result" where
  "new_FeHierarchicSegment chebyshevNodes degree rel_orient =
     bind (Segment_ComputeEvaluationNodes chebyshevNodes degree) (\<lambda>nodes.
     Inr \<lparr>segment_degree = degree, segment_eval_nodes = nodes,
          segment_rel_orient = rel_orient\<rparr>)"

section \<open>The triangle (FeHierarchicTria)\<close>

record FeHierarchicTria =
  tria_degree :: nat
  tria_eval_nodes :: matrix
  tria_rel_orient :: "Orientation list"

text \<open>\<^verbatim>\<open>rel_orient_[e]\<close>, an element of the span of orientations.\<close>

definition rel_orient_at :: "Orientation list \<Rightarrow> nat \<Rightarrow> Orientation result" where
  "rel_orient_at rel_orient e =
     (if e < length rel_orient then Inr (rel_orient ! e) else Inl OutOfBounds)"

text \<open>\<^verbatim>\<open>NumRefShapeFunctions()\<close>.\<close>

definition Tria_NumRefShapeFunctions :: "FeHierarchicTria \<Rightarrow> nat" where
  "Tria_NumRefShapeFunctions fe = u32 ((tria_degree fe + 1) * (tria_degree fe + 2)) div 2"

text \<open>\<^verbatim>\<open>NumRefShapeFunctions(dim_t codim)\<close>.\<close>

definition Tria_NumRefShapeFunctions_codim :: "FeHierarchicTria \<Rightarrow> nat \<Rightarrow> nat result" where
  "Tria_NumRefShapeFunctions_codim fe codim =
     (if codim = 0 then
        (if tria_degree fe \<le> 2 then Inr 0
         else Inr (u32 (unsigned_sub (tria_degree fe) 2 * unsigned_sub (tria_degree fe) 1) div 2))
      else if codim = 1 then Inr (unsigned_sub (tria_degree fe) 1)
      else if codim = 2 then Inr 1
      else LF_ASSERT_MSG False (Inl VerifyFailed))"

text \<open>\<^verbatim>\<open>NumRefShapeFunctions(dim_t codim, sub_idx_t subidx)\<close>.\<close>

definition Tria_NumRefShapeFunctions_sub :: "FeHierarchicTria \<Rightarrow> nat \<Rightarrow> nat \<Rightarrow> nat result" where
  "Tria_NumRefShapeFunctions_sub fe codim subidx = Tria_NumRefShapeFunctions_codim fe codim"

text \<open>
  The normalized barycentric ratio of the source,
  \<^verbatim>\<open>la + lb == 0 ? SCALAR(0) : lc / (la + lb)\<close>.
\<close>

definition guarded_ratio :: "real \<Rightarrow> real \<Rightarrow> real result" where
  "guarded_ratio lc lsum = (if lsum = 0 then Inr 0 else fdiv lc lsum)"

text \<open>
  The row expression of an edge function,
  \<^verbatim>\<open>((la + lb).unaryExpr(pow(x, i + 2)).array() *
     lnn.array().unaryExpr(LegendrePoly::integral(i + 2, x))).matrix()\<close>,
  where \<open>lnn\<close> is one of the six vectors of normalized ratios.
\<close>

definition Tria_edge_expr :: "real list \<Rightarrow> real list \<Rightarrow> vector \<Rightarrow> nat \<Rightarrow> real list result" where
  "Tria_edge_expr la lb lnn i =
     bind (cwise (+) la lb) (\<lambda>lsum.
     bind (unaryExpr (\<lambda>x. bind (int_expr (i + 2)) (\<lambda>e. Inr (x ^ e))) lsum) (\<lambda>pw.
     bind (vector_value lnn) (\<lambda>lnnv.
     bind (unaryExpr (\<lambda>x. bind (int_expr (i + 2)) (\<lambda>n. LegendrePoly_integral n x)) lnnv)
       (\<lambda>leg.
     cwise (*) pw leg))))"

definition Tria_EvalReferenceShapeFunctions ::
  "FeHierarchicTria \<Rightarrow> matrix \<Rightarrow> matrix result" where
  "Tria_EvalReferenceShapeFunctions fe refcoords =
     (let degree = tria_degree fe;
          rel_orient = tria_rel_orient fe;
          n = cols refcoords;
          result = Matrix (Tria_NumRefShapeFunctions fe) n in
      bind (row refcoords 0) (\<lambda>x.
      bind (row refcoords 1) (\<lambda>y.
      bind (cwise (-) (replicate n 1) x) (\<lambda>ones_minus_x.
      bind (cwise (-) ones_minus_x y) (\<lambda>l1.
      let l2 = x; l3 = y in
      bind (for_loop [0..<n]
             (\<lambda>i (l121n, l122n, l232n, l233n, l313n, l311n).
                bind (elem l1 i) (\<lambda>l1i.
                bind (elem l2 i) (\<lambda>l2i.
                bind (elem l3 i) (\<lambda>l3i.
                bind (guarded_ratio l1i (l1i + l2i)) (\<lambda>v. bind (set_elem i v l121n) (\<lambda>l121n.
                bind (guarded_ratio l2i (l1i + l2i)) (\<lambda>v. bind (set_elem i v l122n) (\<lambda>l122n.
                bind (guarded_ratio l2i (l2i + l3i)) (\<lambda>v. bind (set_elem i v l232n) (\<lambda>l232n.
                bind (guarded_ratio l3i (l2i + l3i)) (\<lambda>v. bind (set_elem i v l233n) (\<lambda>l233n.
                bind (guarded_ratio l3i (l3i + l1i)) (\<lambda>v. bind (set_elem i v l313n) (\<lambda>l313n.
                bind (guarded_ratio l1i (l3i + l1i)) (\<lambda>v. bind (set_elem i v l311n) (\<lambda>l311n.
                Inr (l121n, l122n, l232n, l233n, l313n, l311n)))))))))))))))))
             (RowVectorXd n, RowVectorXd n, RowVectorXd n,
              RowVectorXd n, RowVectorXd n, RowVectorXd n))
        (\<lambda>(l121n, l122n, l232n, l233n, l313n, l311n).
      bind (unaryExpr (\<lambda>x. Inr x) l1) (\<lambda>r. bind (set_row 0 r result) (\<lambda>result.
      bind (unaryExpr (\<lambda>x. Inr x) l2) (\<lambda>r. bind (set_row 1 r result) (\<lambda>result.
      bind (unaryExpr (\<lambda>x. Inr x) l3) (\<lambda>r. bind (set_row 2 r result) (\<lambda>result.
      bind (for_loop [0..<unsigned_sub degree 1] (\<lambda>i result.
              bind (rel_orient_at rel_orient 0) (\<lambda>orient.
              if orient = positive
              then bind (int_expr (3 + i)) (\<lambda>k.
                   bind (Tria_edge_expr l1 l2 l122n i) (\<lambda>r. set_row k r result))
              else bind (Tria_edge_expr l1 l2 l121n i) (\<lambda>r.
                     set_row (unsigned_sub (u32 (degree + 1)) i) r result))) result) (\<lambda>result.
      bind (for_loop [0..<unsigned_sub degree 1] (\<lambda>i result.
              bind (rel_orient_at rel_orient 1) (\<lambda>orient.
              if orient = positive
              then bind (Tria_edge_expr l2 l3 l233n i) (\<lambda>r.
                     set_row (u32 (degree + 2 + i)) r result)
              else bind (Tria_edge_expr l2 l3 l232n i) (\<lambda>r.
                     set_row (unsigned_sub (u32 (2 * degree)) i) r result))) result) (\<lambda>result.
      bind (for_loop [0..<unsigned_sub degree 1] (\<lambda>i result.
              bind (rel_orient_at rel_orient 2) (\<lambda>orient.
              if orient = positive
              then bind (Tria_edge_expr l3 l1 l311n i) (\<lambda>r.
                     set_row (u32 (2 * degree + 1 + i)) r result)
              else bind (Tria_edge_expr l3 l1 l313n i) (\<lambda>r.
                     set_row (unsigned_sub (unsigned_sub (u32 (3 * degree)) 1) i) r result))) result)
        (\<lambda>result.
      if degree > 2
      then bind (int_expr (u32 (3 * degree))) (\<lambda>idx.
           bind (for_loop [0..<unsigned_sub degree 2] (\<lambda>i.
                   for_loop [0..<unsigned_sub (unsigned_sub degree i) 2] (\<lambda>j (idx, result).
                     bind (rel_orient_at rel_orient 1) (\<lambda>orient.
                     bind (row result (if orient = positive then u32 (degree + 2 + i)
                                       else unsigned_sub (u32 (2 * degree)) i)) (\<lambda>edge.
                     bind (unaryExpr (\<lambda>x.
                             bind (int_expr (j + 1)) (\<lambda>n.
                             bind (int_expr (2 * i + 4)) (\<lambda>alpha.
                             JacobiPoly_integral n (real alpha) x))) l1)
                       (\<lambda>jac.
                     bind (cwise (*) edge jac) (\<lambda>r.
                     bind (set_row idx r result) (\<lambda>result.
                     bind (int_expr (idx + 1)) (\<lambda>idx.
                     Inr (idx, result)))))))))
                 (idx, result))
             (\<lambda>(idx, result). Inr result))
      else Inr result)))))))))))))))"

text \<open>\<^verbatim>\<open>EvaluationNodes()\<close>.\<close>

definition Tria_EvaluationNodes :: "FeHierarchicTria \<Rightarrow> matrix" where
  "Tria_EvaluationNodes fe = tria_eval_nodes fe"

section \<open>The quadrilateral (FeHierarchicQuad)\<close>

text \<open>
  The members \<^verbatim>\<open>degree_\<close>, \<^verbatim>\<open>eval_nodes_\<close>, \<^verbatim>\<open>fe1d_\<close> and \<^verbatim>\<open>rel_orient_\<close>; the
  constructor initialises \<^verbatim>\<open>fe1d_\<close> with \<^verbatim>\<open>fe1d_(degree, rel_orient)\<close>, a segment
  of the same degree.
\<close>

record FeHierarchicQuad =
  quad_degree :: nat
  quad_eval_nodes :: matrix
  quad_fe1d :: FeHierarchicSegment
  quad_rel_orient :: "Orientation list"

definition Quad_NumRefShapeFunctions :: "FeHierarchicQuad \<Rightarrow> nat" where
  "Quad_NumRefShapeFunctions fe = u32 ((quad_degree fe + 1) * (quad_degree fe + 1))"

text \<open>
  \<^verbatim>\<open>(a.row(r).array() * b.row(s).array()).matrix()\<close>; the row indices are \<^verbatim>\<open>int\<close>
  expressions.
\<close>

definition row_product :: "matrix \<Rightarrow> nat \<Rightarrow> matrix \<Rightarrow> nat \<Rightarrow> real list result" where
  "row_product a r b s =
     bind (int_expr r) (\<lambda>r. bind (int_expr s) (\<lambda>s.
     bind (row a r) (\<lambda>u. bind (row b s) (\<lambda>v. cwise (*) u v))))"

definition Quad_EvalReferenceShapeFunctions ::
  "FeHierarchicQuad \<Rightarrow> matrix \<Rightarrow> matrix result" where
  "Quad_EvalReferenceShapeFunctions fe refcoords =
     (let degree = quad_degree fe;
          rel_orient = quad_rel_orient fe;
          fe1d = quad_fe1d fe;
          n = cols refcoords;
          result = Matrix (Quad_NumRefShapeFunctions fe) n in
      bind (row refcoords 0) (\<lambda>x.
      bind (Segment_EvalReferenceShapeFunctions fe1d [map Some x]) (\<lambda>sf1d_x.
      bind (row refcoords 1) (\<lambda>y.
      bind (Segment_EvalReferenceShapeFunctions fe1d [map Some y]) (\<lambda>sf1d_y.
      bind (cwise (-) (replicate n 1) x) (\<lambda>one_minus_x.
      bind (Segment_EvalReferenceShapeFunctions fe1d [map Some one_minus_x]) (\<lambda>sf1df_x.
      bind (cwise (-) (replicate n 1) y) (\<lambda>one_minus_y.
      bind (Segment_EvalReferenceShapeFunctions fe1d [map Some one_minus_y]) (\<lambda>sf1df_y.
      bind (row_product sf1d_x 0 sf1d_y 0) (\<lambda>r. bind (set_row 0 r result) (\<lambda>result.
      bind (row_product sf1d_x 1 sf1d_y 0) (\<lambda>r. bind (set_row 1 r result) (\<lambda>result.
      bind (row_product sf1d_x 1 sf1d_y 1) (\<lambda>r. bind (set_row 2 r result) (\<lambda>result.
      bind (row_product sf1d_x 0 sf1d_y 1) (\<lambda>r. bind (set_row 3 r result) (\<lambda>result.
      bind (for_loop [0..<unsigned_sub degree 1] (\<lambda>i result.
              bind (rel_orient_at rel_orient 0) (\<lambda>orient.
              if orient = positive
              then bind (int_expr (4 + i)) (\<lambda>k.
                   bind (row_product sf1d_x (2 + i) sf1d_y 0) (\<lambda>r. set_row k r result))
              else bind (row_product sf1df_x (2 + i) sf1d_y 0) (\<lambda>r.
                     set_row (unsigned_sub (u32 (2 + degree)) i) r result))) result) (\<lambda>result.
      bind (for_loop [0..<unsigned_sub degree 1] (\<lambda>i result.
              bind (rel_orient_at rel_orient 1) (\<lambda>orient.
              if orient = positive
              then bind (row_product sf1d_x 1 sf1d_y (2 + i)) (\<lambda>r.
                     set_row (u32 (3 + degree + i)) r result)
              else bind (row_product sf1d_x 1 sf1df_y (2 + i)) (\<lambda>r.
                     set_row (unsigned_sub (u32 (1 + 2 * degree)) i) r result))) result) (\<lambda>result.
      bind (for_loop [0..<unsigned_sub degree 1] (\<lambda>i result.
              bind (rel_orient_at rel_orient 2) (\<lambda>orient.
              if orient = positive
              then bind (row_product sf1df_x (2 + i) sf1d_y 1) (\<lambda>r.
                     set_row (u32 (2 + 2 * degree + i)) r result)
              else bind (row_product sf1d_x (2 + i) sf1d_y 1) (\<lambda>r.
                     set_row (unsigned_sub (u32 (3 * degree)) i) r result))) result) (\<lambda>result.
      bind (for_loop [0..<unsigned_sub degree 1] (\<lambda>i result.
              bind (rel_orient_at rel_orient 3) (\<lambda>orient.
              if orient = positive
              then bind (row_product sf1d_x 0 sf1df_y (2 + i)) (\<lambda>r.
                     set_row (u32 (1 + 3 * degree + i)) r result)
              else bind (row_product sf1d_x 0 sf1d_y (2 + i)) (\<lambda>r.
                     set_row (unsigned_sub (unsigned_sub (u32 (4 * degree)) 1) i) r result))) result)
        (\<lambda>result.
      for_loop [0..<unsigned_sub degree 1] (\<lambda>i.
        for_loop [0..<unsigned_sub degree 1] (\<lambda>j result.
          bind (row_product sf1d_x (j + 2) sf1d_y (i + 2)) (\<lambda>r.
          set_row (u32 (4 * degree + unsigned_sub degree 1 * i + j)) r result)))
        result)))))))))))))))))))))"

section \<open>Auxiliary definitions for the proofs\<close>

text \<open>
  The Legendre polynomials on \<open>[-1, 1]\<close> by their three-term recurrence, their
  derivatives, and the value that \<open>LegendrePoly_integral\<close> computes. They are
  not part of the program: the lemmas below show that the loops compute them.
\<close>

fun legendre :: "nat \<Rightarrow> real \<Rightarrow> real" where
  "legendre 0 x = 1"
| "legendre (Suc 0) x = x"
| "legendre (Suc (Suc n)) x =
     (real (2 * n + 3) * x * legendre (Suc n) x - real (n + 1) * legendre n x) / real (n + 2)"

fun dlegendre :: "nat \<Rightarrow> real \<Rightarrow> real" where
  "dlegendre 0 x = 0"
| "dlegendre (Suc 0) x = 1"
| "dlegendre (Suc (Suc n)) x =
     (real (2 * n + 3) * (legendre (Suc n) x + x * dlegendre (Suc n) x)
        - real (n + 1) * dlegendre n x) / real (n + 2)"

definition integrated_legendre :: "nat \<Rightarrow> real \<Rightarrow> real" where
  "integrated_legendre n x =
     (if n = 0 then - 1 else if n = 1 then x
      else (legendre n (2 * x - 1) - legendre (n - 2) (2 * x - 1)) / real (4 * n - 2))"

text \<open>
  The same with the divisor as the code computes it, in unsigned arithmetic:
  the two agree up to \<open>n = 2 ^ 30\<close>.
\<close>

definition wrapped_integrated_legendre :: "nat \<Rightarrow> real \<Rightarrow> real" where
  "wrapped_integrated_legendre n x =
     (if n = 0 then - 1 else if n = 1 then x
      else (legendre n (2 * x - 1) - legendre (n - 2) (2 * x - 1))
             / real (unsigned_sub (u32 (4 * n)) 2))"


text \<open>
  The guarded ratio as a real function, the coordinate matrix of a list of
  points of the plane, the coefficients that the loop over the columns has
  written after \<open>k\<close> steps, and the values of the Jacobi evaluators.
\<close>

definition ratio :: "real \<Rightarrow> real \<Rightarrow> real" where
  "ratio a s = (if s = 0 then 0 else a / s)"

definition coords :: "(real \<times> real) list \<Rightarrow> matrix" where
  "coords pts = [map (\<lambda>p. Some (fst p)) pts, map (\<lambda>p. Some (snd p)) pts]"

definition partial_vector :: "nat \<Rightarrow> nat \<Rightarrow> (nat \<Rightarrow> real) \<Rightarrow> vector" where
  "partial_vector n k g = map (\<lambda>i. Some (g i)) [0..<k] @ replicate (n - k) None"

definition jacobi_integral_value :: "nat \<Rightarrow> real \<Rightarrow> real \<Rightarrow> real" where
  "jacobi_integral_value n alpha x =
     (case JacobiPoly_integral n alpha x of Inr v \<Rightarrow> v | Inl e \<Rightarrow> 0)"

text \<open>
  The barycentric coordinates of a point, the row that holds mode \<open>i\<close> of edge
  \<open>e\<close> of the triangle under the orientation \<open>orient\<close>, the value of that mode
  at a point, and the number of interior rows written before the outer
  counter of the interior loops reaches \<open>i\<close>. The lemmas below show that the
  loops of \<open>Tria_EvalReferenceShapeFunctions\<close> produce this layout.
\<close>

definition bary1 :: "real \<times> real \<Rightarrow> real" where
  "bary1 p = 1 - fst p - snd p"

definition tria_edge_row :: "nat \<Rightarrow> nat \<Rightarrow> Orientation \<Rightarrow> nat \<Rightarrow> nat" where
  "tria_edge_row degree e orient i =
     (if e = 0 then (if orient = positive then 3 + i else degree + 1 - i)
      else if e = 1 then (if orient = positive then degree + 2 + i else 2 * degree - i)
      else (if orient = positive then 2 * degree + 1 + i else 3 * degree - 1 - i))"

definition tria_edge_value :: "nat \<Rightarrow> Orientation \<Rightarrow> nat \<Rightarrow> real \<times> real \<Rightarrow> real" where
  "tria_edge_value e orient i p =
     (if e = 0 then
        (bary1 p + fst p) ^ (i + 2) * integrated_legendre (i + 2)
          (if orient = positive then ratio (fst p) (bary1 p + fst p)
           else ratio (bary1 p) (bary1 p + fst p))
      else if e = 1 then
        (fst p + snd p) ^ (i + 2) * integrated_legendre (i + 2)
          (if orient = positive then ratio (snd p) (fst p + snd p)
           else ratio (fst p) (fst p + snd p))
      else
        (snd p + bary1 p) ^ (i + 2) * integrated_legendre (i + 2)
          (if orient = positive then ratio (bary1 p) (snd p + bary1 p)
           else ratio (snd p) (snd p + bary1 p)))"

fun tri_off :: "nat \<Rightarrow> nat \<Rightarrow> nat" where
  "tri_off p 0 = 0"
| "tri_off p (Suc i) = tri_off p i + (p - 2 - i)"

text \<open>
  \<open>rows_are M N n R\<close>: the matrix \<open>M\<close> has \<open>N\<close> rows of \<open>n\<close> coefficients, and
  every pair \<open>(r, v)\<close> of \<open>R\<close> is a row \<open>r\<close> that holds the values \<open>v\<close>.
\<close>

definition rows_are :: "matrix \<Rightarrow> nat \<Rightarrow> nat \<Rightarrow> (nat \<times> real list) set \<Rightarrow> bool" where
  "rows_are M N n R \<longleftrightarrow>
     length M = N \<and> (\<forall>r<N. length (M ! r) = n) \<and>
     (\<forall>(r, v) \<in> R. r < N \<and> M ! r = map Some v)"

text \<open>
  Shape function \<open>r\<close> of the segment as a real function, and the row and the
  value of mode \<open>i\<close> of edge \<open>e\<close> of the quadrilateral under the orientation
  \<open>orient\<close>, as the loops of \<open>Quad_EvalReferenceShapeFunctions\<close> lay them out.
\<close>

definition segment_shape :: "nat \<Rightarrow> real \<Rightarrow> real" where
  "segment_shape r x = (if r = 0 then 1 - x else if r = 1 then x else integrated_legendre r x)"

definition quad_edge_row :: "nat \<Rightarrow> nat \<Rightarrow> Orientation \<Rightarrow> nat \<Rightarrow> nat" where
  "quad_edge_row degree e orient i =
     (if e = 0 then (if orient = positive then 4 + i else 2 + degree - i)
      else if e = 1 then (if orient = positive then 3 + degree + i else 1 + 2 * degree - i)
      else if e = 2 then (if orient = positive then 2 + 2 * degree + i else 3 * degree - i)
      else (if orient = positive then 1 + 3 * degree + i else 4 * degree - 1 - i))"

definition quad_edge_value :: "nat \<Rightarrow> Orientation \<Rightarrow> nat \<Rightarrow> real \<times> real \<Rightarrow> real" where
  "quad_edge_value e orient i p =
     (if e = 0 then
        segment_shape (2 + i) (if orient = positive then fst p else 1 - fst p)
          * segment_shape 0 (snd p)
      else if e = 1 then
        segment_shape 1 (fst p)
          * segment_shape (2 + i) (if orient = positive then snd p else 1 - snd p)
      else if e = 2 then
        segment_shape (2 + i) (if orient = positive then 1 - fst p else fst p)
          * segment_shape 1 (snd p)
      else
        segment_shape 0 (fst p)
          * segment_shape (2 + i) (if orient = positive then 1 - snd p else snd p))"
section \<open>Basic facts\<close>

lemma bind_Inr [simp]: "bind (Inr v) f = f v"
  by (simp add: bind_def)

lemma bind_Inl [simp]: "bind (Inl e) f = Inl e"
  by (simp add: bind_def)

lemma LF_ASSERT_MSG_True [simp]: "LF_ASSERT_MSG True c = c"
  by (simp add: LF_ASSERT_MSG_def)

lemma LF_ASSERT_MSG_False [simp]: "LF_ASSERT_MSG False c = Inl InvalidArgument"
  by (simp add: LF_ASSERT_MSG_def)

lemma unsigned_sub_le [simp]: "b \<le> a \<Longrightarrow> unsigned_sub a b = a - b"
  by (simp add: unsigned_sub_def)

lemma u32_small [simp]: "n < 4294967296 \<Longrightarrow> u32 n = n"
  by (simp add: u32_def)

lemma int_expr_small [simp]: "n < 2147483648 \<Longrightarrow> int_expr n = Inr n"
  by (simp add: int_expr_def)

lemma int_expr_large [simp]: "2147483648 \<le> n \<Longrightarrow> int_expr n = Inl IntOverflow"
  by (simp add: int_expr_def)

section \<open>Sub-entities of the reference elements\<close>

text \<open>
  Claim C7. For every kind, \<open>SubType\<close> at a codimension and a valid index (at
  least 0 and below \<open>NumSubEntities\<close>) returns the kind itself when the
  codimension is 0, \<open>kPoint\<close> when the codimension is the dimension of the kind,
  and \<open>kSegment\<close> when the dimension minus the codimension is 1. A call with a
  negative codimension, or one greater than the dimension, fails with
  \<open>InvalidArgument\<close> and returns no value.
\<close>

theorem SubType_policy:
  "(0 \<le> sub_index \<and> NumSubEntities t sub_codim = Inr n \<and> sub_index < n \<longrightarrow>
      (sub_codim = 0 \<longrightarrow> SubType t sub_codim sub_index = Inr t) \<and>
      (sub_codim = Dimension t \<longrightarrow> SubType t sub_codim sub_index = Inr kPoint) \<and>
      (Dimension t - sub_codim = 1 \<longrightarrow> SubType t sub_codim sub_index = Inr kSegment)) \<and>
   (sub_codim < 0 \<or> Dimension t < sub_codim \<longrightarrow>
      SubType t sub_codim sub_index = Inl InvalidArgument)"
  by (cases t) (auto simp: SubType_def NumSubEntities_def LF_ASSERT_MSG_def)

theorem SubType_policy_witness:
  "SubType kTria 0 0 = Inr kTria \<and> SubType kTria 2 1 = Inr kPoint \<and>
   SubType kTria 1 2 = Inr kSegment \<and> SubType kTria 3 0 = Inl InvalidArgument \<and>
   SubType kQuad (- 1) 0 = Inl InvalidArgument"
  using SubType_policy [of 0 kTria 0 1] SubType_policy [of 1 kTria 2 3]
    SubType_policy [of 2 kTria 1 3] SubType_policy [of 0 kTria 3 0]
    SubType_policy [of 0 kQuad "- 1" 0]
  by (simp add: NumSubEntities_def)

text \<open>
  Claim C2. On the triangle, the end point (sub-sub-index 1) of edge 2 is
  looked up in \<open>sub_sub_entity_index_tria\<close>, whose last row is \<open>[2, 3]\<close>: the
  call \<open>SubSubEntity2SubEntity(1, 2, 1, 1)\<close> returns 3, which is neither the
  vertex 0 of the pair (2,0) nor an index below \<open>NumNodes kTria = 3\<close>.
\<close>

theorem SubSubEntity2SubEntity_tria_edge2:
  "SubSubEntity2SubEntity kTria 1 2 1 1 = Inr 3 \<and>
   \<not> (3 < NumNodes kTria) \<and>
   SubSubEntity2SubEntity kQuad 1 3 1 1 = Inr 0"
  by (simp add: SubSubEntity2SubEntity_def SubType_def NumSubEntities_def array_at_def
      sub_sub_entity_index_tria_def sub_sub_entity_index_quad_def)

section \<open>Counting the shape functions of the triangle\<close>

lemma tri_sum: "3 \<le> p \<Longrightarrow> 3 + 3 * (p - 1) + (p - 2) * (p - 1) div 2 = (p + 1) * (p + 2) div (2::nat)"
proof -
  assume "3 \<le> p"
  then obtain q where p: "p = q + 3" by (metis add.commute le_Suc_ex)
  have "even ((q + 1) * (q + 2))" by simp
  then obtain k where k: "(q + 1) * (q + 2) = 2 * k" by (elim evenE)
  have "(q + 4) * (q + 5) = (q + 1) * (q + 2) + 2 * (3 * q + 9)" by (simp add: algebra_simps)
  then have k': "(q + 4) * (q + 5) = 2 * (k + 3 * q + 9)" using k by simp
  have main: "3 + 3 * (q + 2) + (q + 1) * (q + 2) div 2 = (q + 4) * (q + 5) div 2"
    unfolding k k' by simp
  have e: "p - 1 = q + 2" "p - 2 = q + 1" "p + 1 = q + 4" "p + 2 = q + 5"
    using p by simp_all
  show ?thesis unfolding e by (rule main)
qed

lemma tria_count_small:
  assumes "p \<le> (65534::nat)"
  shows "(p + 1) * (p + 2) < 4294967296"
proof -
  have "(p + 1) * (p + 2) \<le> 65535 * 65536"
    using assms by (intro mult_mono) simp_all
  then show ?thesis by simp
qed




section \<open>Loops and the Legendre polynomials\<close>

lemma bind_eq_Inr_iff: "bind m f = Inr y \<longleftrightarrow> (\<exists>v. m = Inr v \<and> f v = Inr y)"
  by (cases m) simp_all

lemma for_loop_append:
  "for_loop (xs @ ys) body s = bind (for_loop xs body s) (for_loop ys body)"
proof (induction xs arbitrary: s)
  case Nil
  show ?case by simp
next
  case (Cons i xs)
  show ?case by (cases "body i s") (simp_all add: Cons.IH)
qed

lemma bind_Inr_right [simp]: "bind m Inr = m"
  by (cases m) simp_all

lemma for_loop_Nil [simp]: "for_loop [] body = Inr"
  by (rule ext) simp

lemma for_loop_single [simp]: "for_loop [i] body = body i"
  by (rule ext) simp

lemma for_loop_upt_Suc:
  "a \<le> b \<Longrightarrow> for_loop [a..<Suc b] body s = bind (for_loop [a..<b] body s) (body b)"
  by (simp add: for_loop_append)

lemma fdiv_nonzero [simp]: "b \<noteq> 0 \<Longrightarrow> fdiv a b = Inr (a / b)"
  by (simp add: fdiv_def)

lemma legendre_loop:
  assumes body: "\<And>j a b. j \<le> n \<Longrightarrow> body j (a, b) =
      Inr (b, (real (2 * j + 1) * x * b - real j * a) / real (j + 1))"
  shows "for_loop [1..<Suc n] body (1, x) = Inr (legendre n x, legendre (Suc n) x)"
  using body
proof (induction n)
  case 0
  show ?case by simp
next
  case (Suc n)
  have IH: "for_loop [1..<Suc n] body (1, x) = Inr (legendre n x, legendre (Suc n) x)"
    by (rule Suc.IH) (simp add: Suc.prems)
  have "for_loop [1..<Suc (Suc n)] body (1, x) =
        bind (for_loop [1..<Suc n] body (1, x)) (body (Suc n))"
    by (rule for_loop_upt_Suc) simp
  also have "\<dots> = body (Suc n) (legendre n x, legendre (Suc n) x)"
    by (simp only: IH bind_Inr)
  also have "\<dots> = Inr (legendre (Suc n) x, legendre (Suc (Suc n)) x)"
    by (simp add: Suc.prems algebra_simps)
  finally show ?case .
qed

lemma LegendrePoly_eval_unfold:
  "2 \<le> n \<Longrightarrow> LegendrePoly_eval n x0 =
     bind (for_loop [1..<n] (\<lambda>j (Ljm1, Lj).
                   bind (fdiv (real (u32 (2 * j + 1)) * (2 * x0 - 1) * Lj - real j * Ljm1)
                           (real (u32 (j + 1))))
                     (\<lambda>Ljp1. Inr (Lj, Ljp1)))
                 (1, 2 * x0 - 1))
             (\<lambda>(Ljm1, Lj). Inr Lj)"
  by (simp add: LegendrePoly_eval_def Let_def)

lemma legendre_step:
  assumes "j < 2147483648"
  shows "bind (fdiv (real (u32 (2 * j + 1)) * x * c - real j * b) (real (u32 (j + 1)))) f =
         f ((real (2 * j + 1) * x * c - real j * b) / real (j + 1))"
proof -
  have "u32 (2 * j + 1) = 2 * j + 1" "u32 (j + 1) = j + 1" using assms by simp_all
  then show ?thesis by simp
qed

lemma LegendrePoly_eval_eq:
  assumes "n \<le> 2147483648"
  shows "LegendrePoly_eval n x = Inr (legendre n (2 * x - 1))"
proof -
  consider "n = 0" | "n = 1" | k where "n = Suc (Suc k)"
    by (metis One_nat_def not0_implies_Suc)
  then show ?thesis
  proof cases
    case 1
    then show ?thesis by (simp add: LegendrePoly_eval_def)
  next
    case 2
    then show ?thesis by (simp add: LegendrePoly_eval_def)
  next
    case 3
    have "2 \<le> n" using 3 by simp
    have loop: "for_loop [1..<Suc (Suc k)] (\<lambda>j (Ljm1, Lj).
                   bind (fdiv (real (u32 (2 * j + 1)) * (2 * x - 1) * Lj - real j * Ljm1)
                           (real (u32 (j + 1))))
                     (\<lambda>Ljp1. Inr (Lj, Ljp1)))
                 (1, 2 * x - 1) =
          Inr (legendre (Suc k) (2 * x - 1), legendre (Suc (Suc k)) (2 * x - 1))"
    proof (rule legendre_loop)
      fix j a b
      assume "j \<le> Suc k"
      then have j: "j < 2147483648" using assms 3 by simp
      show "(case (a, b) of (Ljm1, Lj) \<Rightarrow>
               bind (fdiv (real (u32 (2 * j + 1)) * (2 * x - 1) * Lj - real j * Ljm1)
                       (real (u32 (j + 1))))
                 (\<lambda>Ljp1. Inr (Lj, Ljp1))) =
            Inr (b, (real (2 * j + 1) * (2 * x - 1) * b - real j * a) / real (j + 1))"
        by (simp only: prod.case legendre_step [OF j])
    qed
    show ?thesis
      unfolding LegendrePoly_eval_unfold [OF \<open>2 \<le> n\<close>] unfolding 3 loop by simp
  qed
qed

lemma legendre_loop3:
  assumes body: "\<And>j a b c. j \<le> Suc n \<Longrightarrow> body j (a, b, c) =
      Inr (b, c, (real (2 * j + 1) * x * c - real j * b) / real (j + 1))"
  shows "for_loop [2..<Suc (Suc n)] body (1, x, legendre 2 x) =
         Inr (legendre n x, legendre (Suc n) x, legendre (Suc (Suc n)) x)"
  using body
proof (induction n)
  case 0
  show ?case by (simp add: numeral_2_eq_2)
next
  case (Suc n)
  have IH: "for_loop [2..<Suc (Suc n)] body (1, x, legendre 2 x) =
         Inr (legendre n x, legendre (Suc n) x, legendre (Suc (Suc n)) x)"
    by (rule Suc.IH) (simp add: Suc.prems)
  have "for_loop [2..<Suc (Suc (Suc n))] body (1, x, legendre 2 x) =
        bind (for_loop [2..<Suc (Suc n)] body (1, x, legendre 2 x)) (body (Suc (Suc n)))"
    by (rule for_loop_upt_Suc) simp
  also have "\<dots> =
        body (Suc (Suc n)) (legendre n x, legendre (Suc n) x, legendre (Suc (Suc n)) x)"
    by (simp only: IH bind_Inr)
  also have "\<dots> = Inr (legendre (Suc n) x, legendre (Suc (Suc n)) x, legendre (Suc (Suc (Suc n))) x)"
    by (simp add: Suc.prems algebra_simps)
  finally show ?case .
qed

lemma LegendrePoly_integral_unfold:
  "2 \<le> n \<Longrightarrow> LegendrePoly_integral n x0 =
            bind (fdiv (3 * (2 * x0 - 1) * (2 * x0 - 1) - 1) 2) (\<lambda>Lj.
            bind (for_loop [2..<n] (\<lambda>j (Ljm2, Ljm1, Lj).
                    bind (fdiv (real (u32 (2 * j + 1)) * (2 * x0 - 1) * Lj - real j * Ljm1)
                            (real (u32 (j + 1))))
                      (\<lambda>Ljp1. Inr (Ljm1, Lj, Ljp1)))
                  (1, 2 * x0 - 1, Lj))
              (\<lambda>(Ljm2, Ljm1, Lj). fdiv (Lj - Ljm2) (real (unsigned_sub (u32 (4 * n)) 2))))"
  by (simp add: LegendrePoly_integral_def Let_def)

lemma integral_divisor_nonzero: "unsigned_sub (u32 (4 * n)) 2 \<noteq> 0"
proof -
  have "4 dvd u32 (4 * n)"
    unfolding u32_def by (rule dvd_mod) simp_all
  then obtain q where q: "u32 (4 * n) = 4 * q" by (auto elim: dvdE)
  show ?thesis unfolding q unsigned_sub_def by (cases q) simp_all
qed

lemma LegendrePoly_integral_eq:
  assumes "Suc (Suc n) \<le> 2147483648"
  shows "LegendrePoly_integral (Suc (Suc n)) x =
     Inr ((legendre (Suc (Suc n)) (2 * x - 1) - legendre n (2 * x - 1))
            / real (unsigned_sub (u32 (4 * Suc (Suc n))) 2))"
proof -
  have l2: "fdiv (3 * (2 * x - 1) * (2 * x - 1) - 1) 2 = Inr (legendre 2 (2 * x - 1))"
    by (simp add: numeral_2_eq_2)
  have n2: "2 \<le> Suc (Suc n)" by simp
  have loop: "for_loop [2..<Suc (Suc n)] (\<lambda>j (Ljm2, Ljm1, Lj).
                    bind (fdiv (real (u32 (2 * j + 1)) * (2 * x - 1) * Lj - real j * Ljm1)
                            (real (u32 (j + 1))))
                      (\<lambda>Ljp1. Inr (Ljm1, Lj, Ljp1)))
                  (1, 2 * x - 1, legendre 2 (2 * x - 1)) =
        Inr (legendre n (2 * x - 1), legendre (Suc n) (2 * x - 1),
             legendre (Suc (Suc n)) (2 * x - 1))"
  proof (rule legendre_loop3)
    fix j a b c
    assume "j \<le> Suc n"
    then have j: "j < 2147483648" using assms by simp
    show "(case (a, b, c) of (Ljm2, Ljm1, Lj) \<Rightarrow>
             bind (fdiv (real (u32 (2 * j + 1)) * (2 * x - 1) * Lj - real j * Ljm1)
                     (real (u32 (j + 1))))
               (\<lambda>Ljp1. Inr (Ljm1, Lj, Ljp1))) =
          Inr (b, c, (real (2 * j + 1) * (2 * x - 1) * c - real j * b) / real (j + 1))"
      by (simp only: prod.case legendre_step [OF j])
  qed
  have nz: "real (unsigned_sub (u32 (4 * Suc (Suc n))) 2) \<noteq> 0"
    using integral_divisor_nonzero [of "Suc (Suc n)"] by simp
  show ?thesis
    unfolding LegendrePoly_integral_unfold [OF n2] l2 bind_Inr loop prod.case
    by (simp only: fdiv_nonzero [OF nz])
qed


lemma legendre_at_1 [simp]: "legendre n 1 = 1"
  by (induction n "1::real" rule: legendre.induct) (simp_all add: field_simps)

lemma legendre_at_minus_1 [simp]: "legendre n (- 1) = (- 1) ^ n"
  by (induction n "- 1::real" rule: legendre.induct) (simp_all add: field_simps)

lemma legendre_has_derivative:
  "(legendre n has_real_derivative dlegendre n x) (at x)"
proof (induction n arbitrary: x rule: less_induct)
  case (less n)
  consider "n = 0" | "n = 1" | k where "n = Suc (Suc k)"
    by (metis One_nat_def not0_implies_Suc)
  then show ?case
  proof cases
    case 1
    have "legendre 0 = (\<lambda>x. 1)" by (rule ext) simp
    then show ?thesis using 1 by simp
  next
    case 2
    have "legendre 1 = (\<lambda>x. x)" by (rule ext) simp
    then show ?thesis using 2 by simp
  next
    case 3
    have e: "legendre (Suc (Suc k)) =
      (\<lambda>x. (real (2 * k + 3) * x * legendre (Suc k) x - real (k + 1) * legendre k x) / real (k + 2))"
      by (rule ext) simp
    have d1: "(legendre (Suc k) has_real_derivative dlegendre (Suc k) x) (at x)"
      using less [of "Suc k"] 3 by simp
    have d0: "(legendre k has_real_derivative dlegendre k x) (at x)"
      using less [of k] 3 by simp
    have "((\<lambda>x. real (2 * k + 3) * x * legendre (Suc k) x - real (k + 1) * legendre k x)
        has_real_derivative
          (real (2 * k + 3) * (legendre (Suc k) x + x * dlegendre (Suc k) x)
            - real (k + 1) * dlegendre k x)) (at x)"
      by (rule derivative_eq_intros d1 d0 refl | simp add: algebra_simps)+
    from DERIV_cdivide [OF this, of "real (k + 2)"] show ?thesis
      unfolding 3 e by simp
  qed
qed

lemma legendre_rec:
  "(real n + 2) * legendre (Suc (Suc n)) x =
     (2 * real n + 3) * x * legendre (Suc n) x - (real n + 1) * legendre n x"
proof -
  have "real n + 2 \<noteq> 0" by (simp add: add_nonneg_eq_0_iff)
  then show ?thesis by (simp add: field_simps)
qed

lemma dlegendre_rec:
  "(real n + 2) * dlegendre (Suc (Suc n)) x =
     (2 * real n + 3) * (legendre (Suc n) x + x * dlegendre (Suc n) x)
       - (real n + 1) * dlegendre n x"
proof -
  have "real n + 2 \<noteq> 0" by (simp add: add_nonneg_eq_0_iff)
  then show ?thesis by (simp add: field_simps)
qed

lemma dlegendre_identities:
  "x * dlegendre (Suc n) x - dlegendre n x = (real n + 1) * legendre (Suc n) x \<and>
   (x * x - 1) * dlegendre (Suc n) x = (real n + 1) * (x * legendre (Suc n) x - legendre n x) \<and>
   dlegendre (Suc (Suc n)) x = x * dlegendre (Suc n) x + (real n + 2) * legendre (Suc n) x"
proof (induction n)
  case 0
  show ?case by (simp add: field_simps)
next
  case (Suc n)
  define m where "m = real n"
  define P0 where "P0 = legendre n x"
  define P1 where "P1 = legendre (Suc n) x"
  define P2 where "P2 = legendre (Suc (Suc n)) x"
  define D0 where "D0 = dlegendre n x"
  define D1 where "D1 = dlegendre (Suc n) x"
  define D2 where "D2 = dlegendre (Suc (Suc n)) x"
  define D3 where "D3 = dlegendre (Suc (Suc (Suc n))) x"
  have B: "x * D1 - D0 = (m + 1) * P1" and C: "(x * x - 1) * D1 = (m + 1) * (x * P1 - P0)"
    and A: "D2 = x * D1 + (m + 2) * P1"
    using Suc.IH unfolding m_def P0_def P1_def D0_def D1_def D2_def by blast+
  have P2: "(m + 2) * P2 = (2 * m + 3) * x * P1 - (m + 1) * P0"
    unfolding m_def P0_def P1_def P2_def by (rule legendre_rec)
  have "(real (Suc n) + 2) * D3 = (2 * real (Suc n) + 3) * (P2 + x * D2) - (real (Suc n) + 1) * D1"
    unfolding D3_def P2_def D2_def D1_def by (rule dlegendre_rec)
  then have D3: "(m + 3) * D3 = (2 * m + 5) * (P2 + x * D2) - (m + 2) * D1"
    by (simp add: m_def algebra_simps)
  have B': "x * D2 - D1 = (m + 2) * P2"
  proof -
    have "x * D2 - D1 = (x * x - 1) * D1 + (m + 2) * x * P1"
      unfolding A by (simp add: algebra_simps)
    also have "\<dots> = (m + 1) * (x * P1 - P0) + (m + 2) * x * P1" by (simp only: C)
    also have "\<dots> = (2 * m + 3) * x * P1 - (m + 1) * P0" by (simp add: algebra_simps)
    also have "\<dots> = (m + 2) * P2" by (simp only: P2)
    finally show ?thesis .
  qed
  have C': "(x * x - 1) * D2 = (m + 2) * (x * P2 - P1)"
  proof -
    have "(x * x - 1) * D2 = x * ((x * x - 1) * D1) + (m + 2) * (x * x - 1) * P1"
      unfolding A by (simp add: algebra_simps)
    also have "\<dots> = x * ((m + 1) * (x * P1 - P0)) + (m + 2) * (x * x - 1) * P1"
      by (simp only: C)
    also have "\<dots> = x * ((2 * m + 3) * x * P1 - (m + 1) * P0) - (m + 2) * P1"
      by (simp add: algebra_simps)
    also have "\<dots> = x * ((m + 2) * P2) - (m + 2) * P1" by (simp only: P2)
    also have "\<dots> = (m + 2) * (x * P2 - P1)" by (simp add: algebra_simps)
    finally show ?thesis .
  qed
  have A': "D3 = x * D2 + (m + 3) * P2"
  proof -
    have "(m + 3) * D3 = (2 * m + 5) * P2 + (m + 3) * x * D2 + (m + 2) * (x * D2 - D1)"
      unfolding D3 by (simp add: algebra_simps)
    also have "\<dots> = (2 * m + 5) * P2 + (m + 3) * x * D2 + (m + 2) * ((m + 2) * P2)"
      by (simp only: B')
    also have "\<dots> = (m + 3) * (x * D2 + (m + 3) * P2)" by (simp add: algebra_simps)
    finally have "(m + 3) * D3 = (m + 3) * (x * D2 + (m + 3) * P2)" .
    moreover have "m + 3 \<noteq> 0" unfolding m_def by (simp add: add_nonneg_eq_0_iff)
    ultimately show ?thesis by simp
  qed
  have r: "real (Suc n) + 1 = m + 2" "real (Suc n) + 2 = m + 3"
    by (simp_all add: m_def)
  show ?case
    unfolding r using B' C' A'
    by (simp only: P1_def P2_def D1_def D2_def D3_def)
qed

lemma dlegendre_diff:
  "dlegendre (Suc (Suc n)) x - dlegendre n x = real (2 * n + 3) * legendre (Suc n) x"
proof -
  define P1 where "P1 = legendre (Suc n) x"
  define D0 where "D0 = dlegendre n x"
  define D1 where "D1 = dlegendre (Suc n) x"
  define D2 where "D2 = dlegendre (Suc (Suc n)) x"
  from dlegendre_identities [of x n]
  have B: "x * D1 - D0 = (real n + 1) * P1" and A: "D2 = x * D1 + (real n + 2) * P1"
    unfolding P1_def D0_def D1_def D2_def by blast+
  have "D2 - D0 = (x * D1 - D0) + (real n + 2) * P1" unfolding A by simp
  also have "\<dots> = (real n + 1) * P1 + (real n + 2) * P1" by (simp only: B)
  also have "\<dots> = real (2 * n + 3) * P1" by (simp add: algebra_simps)
  finally show ?thesis by (simp only: P1_def D0_def D2_def)
qed

lemma integrated_legendre_derivative:
  "((\<lambda>t. (legendre (Suc (Suc n)) (2 * t - 1) - legendre n (2 * t - 1)) / real (4 * n + 6))
      has_real_derivative legendre (Suc n) (2 * x - 1)) (at x)"
proof -
  have c: "\<And>k. ((\<lambda>t. legendre k (2 * t - 1)) has_real_derivative
            dlegendre k (2 * x - 1) * 2) (at x)"
  proof -
    fix k
    have g: "((\<lambda>t. 2 * t - 1) has_real_derivative 2) (at x)"
      by (rule derivative_eq_intros refl | simp)+
    from DERIV_chain2 [OF legendre_has_derivative g] show
      "((\<lambda>t. legendre k (2 * t - 1)) has_real_derivative dlegendre k (2 * x - 1) * 2) (at x)" .
  qed
  have "((\<lambda>t. legendre (Suc (Suc n)) (2 * t - 1) - legendre n (2 * t - 1))
      has_real_derivative
        (dlegendre (Suc (Suc n)) (2 * x - 1) * 2 - dlegendre n (2 * x - 1) * 2)) (at x)"
    by (rule DERIV_diff [OF c c])
  from DERIV_cdivide [OF this, of "real (4 * n + 6)"]
  have "((\<lambda>t. (legendre (Suc (Suc n)) (2 * t - 1) - legendre n (2 * t - 1)) / real (4 * n + 6))
      has_real_derivative
        (dlegendre (Suc (Suc n)) (2 * x - 1) * 2 - dlegendre n (2 * x - 1) * 2) / real (4 * n + 6)) (at x)" .
  moreover have "(dlegendre (Suc (Suc n)) (2 * x - 1) * 2 - dlegendre n (2 * x - 1) * 2) / real (4 * n + 6)
      = legendre (Suc n) (2 * x - 1)"
  proof -
    have "dlegendre (Suc (Suc n)) (2 * x - 1) * 2 - dlegendre n (2 * x - 1) * 2
        = 2 * (dlegendre (Suc (Suc n)) (2 * x - 1) - dlegendre n (2 * x - 1))" by simp
    also have "\<dots> = 2 * (real (2 * n + 3) * legendre (Suc n) (2 * x - 1))"
      by (simp only: dlegendre_diff)
    also have "\<dots> = real (4 * n + 6) * legendre (Suc n) (2 * x - 1)" by simp
    finally show ?thesis by simp
  qed
  ultimately show ?thesis by simp
qed

section \<open>The rows of the segment's matrices\<close>

lemma LegendrePoly_integral_wrapped:
  assumes "n \<le> 2147483648"
  shows "LegendrePoly_integral n x = Inr (wrapped_integrated_legendre n x)"
proof -
  consider "n = 0" | "n = 1" | k where "n = Suc (Suc k)"
    by (metis One_nat_def not0_implies_Suc)
  then show ?thesis
  proof cases
    case 1
    then show ?thesis by (simp add: LegendrePoly_integral_def wrapped_integrated_legendre_def)
  next
    case 2
    then show ?thesis by (simp add: LegendrePoly_integral_def wrapped_integrated_legendre_def)
  next
    case 3
    have b: "Suc (Suc k) \<le> 2147483648" using assms 3 by simp
    show ?thesis
      unfolding 3 LegendrePoly_integral_eq [OF b] wrapped_integrated_legendre_def by simp
  qed
qed

lemma integral_divisor:
  assumes "1 \<le> n" and "n \<le> 1073741824"
  shows "unsigned_sub (u32 (4 * n)) 2 = 4 * n - 2"
proof (cases "n = 1073741824")
  case True
  then show ?thesis by (simp add: u32_def unsigned_sub_def)
next
  case False
  with assms have "4 * n < 4294967296" by simp
  then show ?thesis using assms(1) by simp
qed

lemma wrapped_integrated_legendre_eq:
  assumes "n \<le> 1073741824"
  shows "wrapped_integrated_legendre n x = integrated_legendre n x"
proof (cases "n = 0")
  case True
  then show ?thesis by (simp add: wrapped_integrated_legendre_def integrated_legendre_def)
next
  case False
  then have "1 \<le> n" by simp
  from integral_divisor [OF this assms] show ?thesis
    by (simp add: wrapped_integrated_legendre_def integrated_legendre_def)
qed

lemma LegendrePoly_integral_value:
  assumes "n \<le> 1073741824"
  shows "LegendrePoly_integral n x = Inr (integrated_legendre n x)"
proof -
  have "n \<le> 2147483648" using assms by simp
  from LegendrePoly_integral_wrapped [OF this, of x] show ?thesis
    by (simp only: wrapped_integrated_legendre_eq [OF assms])
qed

lemma mapM_Inr:
  "(\<And>x. x \<in> set xs \<Longrightarrow> f x = Inr (g x)) \<Longrightarrow> mapM f xs = Inr (map g xs)"
  by (induction xs) simp_all

lemma mapM_read_cell_Some [simp]: "mapM read_cell (map Some v) = Inr v"
  by (induction v) (simp_all add: read_cell_def)

lemma row_initialised: "r < length M \<Longrightarrow> M ! r = map Some v \<Longrightarrow> row M r = Inr v"
  by (simp add: row_def)

lemma length_Matrix [simp]: "length (Matrix r c) = r"
  by (simp add: Matrix_def)

lemma nth_Matrix [simp]: "i < r \<Longrightarrow> Matrix r c ! i = replicate c None"
  by (simp add: Matrix_def)

lemma set_row_Inr:
  "r < length M \<Longrightarrow> length v = length (M ! r) \<Longrightarrow> set_row r v M = Inr (M[r := map Some v])"
  by (simp add: set_row_def)

lemma set_row_loop:
  assumes body: "\<And>i M. i < n \<Longrightarrow> body i M = set_row (idx i) (v i) M"
      and len: "\<And>i. i < n \<Longrightarrow> length (v i) = c"
      and idx: "\<And>i. i < n \<Longrightarrow> idx i < length M"
      and inj: "inj_on idx {..<n}"
      and wf: "\<And>r. r < length M \<Longrightarrow> length (M ! r) = c"
  shows "\<exists>M'. for_loop [0..<n] body M = Inr M' \<and> length M' = length M \<and>
        (\<forall>r < length M. length (M' ! r) = c) \<and>
        (\<forall>i<n. M' ! idx i = map Some (v i)) \<and>
        (\<forall>r. r \<notin> idx ` {..<n} \<longrightarrow> M' ! r = M ! r)"
  using body len idx inj
proof (induction n)
  case 0
  show ?case using wf by simp
next
  case (Suc n)
  have "inj_on idx {..<n}"
    using Suc.prems(4) by (rule inj_on_subset) auto
  with Suc.IH Suc.prems
  obtain M' where M': "for_loop [0..<n] body M = Inr M'" "length M' = length M"
      "\<forall>r < length M. length (M' ! r) = c"
      "\<forall>i<n. M' ! idx i = map Some (v i)"
      "\<forall>r. r \<notin> idx ` {..<n} \<longrightarrow> M' ! r = M ! r"
    by (metis less_Suc_eq)
  have in_range: "idx n < length M'" using Suc.prems(3) [of n] M'(2) by simp
  have step: "body n M' = Inr (M'[idx n := map Some (v n)])"
    using Suc.prems(1) [of n M'] Suc.prems(2) [of n] in_range M'(2,3)
    by (simp add: set_row_Inr)
  have loop: "for_loop [0..<Suc n] body M = Inr (M'[idx n := map Some (v n)])"
    by (subst for_loop_upt_Suc) (simp_all add: M'(1) step del: upt_Suc)
  have distinct: "\<And>i. i < n \<Longrightarrow> idx i \<noteq> idx n"
    using Suc.prems(4) by (auto simp: inj_on_def)
  show ?case
  proof (intro exI conjI allI impI)
    show "for_loop [0..<Suc n] body M = Inr (M'[idx n := map Some (v n)])" by (rule loop)
    show "length (M'[idx n := map Some (v n)]) = length M" using M'(2) by simp
    show "length (M'[idx n := map Some (v n)] ! r) = c" if "r < length M" for r
      using that M'(2,3) Suc.prems(2) [of n] by (cases "r = idx n") simp_all
    show "M'[idx n := map Some (v n)] ! idx i = map Some (v i)" if "i < Suc n" for i
    proof (cases "i = n")
      case True
      then show ?thesis using in_range by simp
    next
      case False
      with that have "i < n" by simp
      then show ?thesis using distinct [of i] M'(4) by simp
    qed
    show "M'[idx n := map Some (v n)] ! r = M ! r" if "r \<notin> idx ` {..<Suc n}" for r
    proof -
      from that have "r \<noteq> idx n" and "r \<notin> idx ` {..<n}" by auto
      then show ?thesis using M'(5) by simp
    qed
  qed
qed


lemma rows_single [simp]: "rows [r] = 1"
  by (simp add: rows_def)

lemma cols_Cons [simp]: "cols (r # M) = length r"
  by (simp add: cols_def)

lemma unaryExpr_Inr:
  "(\<And>x. x \<in> set xs \<Longrightarrow> f x = Inr (g x)) \<Longrightarrow> unaryExpr f xs = Inr (map g xs)"
  unfolding unaryExpr_def by (rule mapM_Inr)

lemma Segment_rows_generic:
  assumes p: "1 \<le> p" and pB: "p < 2147483648"
      and f: "\<And>i x. i + 2 \<le> p \<Longrightarrow> f (i + 2) i x = Inr (g i x)"
  shows "\<exists>M. bind (row [map Some xs] 0) (\<lambda>ys.
      bind (unaryExpr (\<lambda>x. Inr (a x)) ys) (\<lambda>r0.
      bind (set_row 0 r0 (Matrix (u32 (p + 1)) (length xs))) (\<lambda>result.
      bind (unaryExpr (\<lambda>x. Inr (b x)) ys) (\<lambda>r1.
      bind (set_row 1 r1 result) (\<lambda>result.
      for_loop [0..<unsigned_sub p 1] (\<lambda>i result.
        bind (int_expr (i + 2)) (\<lambda>k.
        bind (unaryExpr (\<lambda>x. f k i x) ys) (\<lambda>r.
        set_row k r result))) result))))) = Inr M \<and>
    length M = p + 1 \<and> (\<forall>r \<le> p. length (M ! r) = length xs) \<and>
    M ! 0 = map Some (map a xs) \<and> M ! 1 = map Some (map b xs) \<and>
    (\<forall>i. i + 2 \<le> p \<longrightarrow> M ! (i + 2) = map Some (map (g i) xs))"
proof -
  define M1 where "M1 = (Matrix (p + 1) (length xs))[0 := map Some (map a xs), 1 := map Some (map b xs)]"
  have N: "u32 (p + 1) = p + 1" using pB by simp
  have start: "bind (row [map Some xs] 0) (\<lambda>ys.
      bind (unaryExpr (\<lambda>x. Inr (a x)) ys) (\<lambda>r0.
      bind (set_row 0 r0 (Matrix (p + 1) (length xs))) (\<lambda>result.
      bind (unaryExpr (\<lambda>x. Inr (b x)) ys) (\<lambda>r1.
      bind (set_row 1 r1 result) (\<lambda>result. k ys result))))) = k xs M1"
    for k :: "real list \<Rightarrow> matrix \<Rightarrow> matrix result"
    using p by (simp add: row_def unaryExpr_Inr set_row_Inr M1_def)
  have len1: "length M1 = p + 1" by (simp add: M1_def)
  have wf1: "length (M1 ! r) = length xs" if "r < length M1" for r
    using that p by (auto simp: M1_def nth_list_update)
  have "\<exists>M'. for_loop [0..<p - 1] (\<lambda>i result.
        bind (int_expr (i + 2)) (\<lambda>k.
        bind (unaryExpr (\<lambda>x. f k i x) xs) (\<lambda>r. set_row k r result))) M1 = Inr M' \<and>
        length M' = length M1 \<and>
        (\<forall>r < length M1. length (M' ! r) = length xs) \<and>
        (\<forall>i<p - 1. M' ! (i + 2) = map Some (map (g i) xs)) \<and>
        (\<forall>r. r \<notin> (\<lambda>i. i + 2) ` {..<p - 1} \<longrightarrow> M' ! r = M1 ! r)"
  proof (rule set_row_loop [where v = "\<lambda>i. map (g i) xs"])
    show "bind (int_expr (i + 2)) (\<lambda>k.
            bind (unaryExpr (f k i) xs) (\<lambda>r. set_row k r M)) = set_row (i + 2) (map (g i) xs) M"
      if "i < p - 1" for i M
    proof -
      have b: "i + 2 \<le> p" using that by simp
      have ie: "int_expr (i + 2) = Inr (i + 2)" using that pB by simp
      have ue: "unaryExpr (f (i + 2) i) xs = Inr (map (g i) xs)"
        by (rule unaryExpr_Inr) (rule f [OF b])
      show ?thesis by (simp only: ie ue bind_Inr)
    qed
    show "length (map (g i) xs) = length xs" for i by simp
    show "i + 2 < length M1" if "i < p - 1" for i using that len1 by simp
    show "inj_on (\<lambda>i. i + 2) {..<p - 1}" by (simp add: inj_on_def)
    show "length (M1 ! r) = length xs" if "r < length M1" for r using that by (rule wf1)
  qed
  then obtain M' where M': "for_loop [0..<p - 1] (\<lambda>i result.
        bind (int_expr (i + 2)) (\<lambda>k.
        bind (unaryExpr (\<lambda>x. f k i x) xs) (\<lambda>r. set_row k r result))) M1 = Inr M'"
      "length M' = length M1"
      "\<forall>r < length M1. length (M' ! r) = length xs"
      "\<forall>i<p - 1. M' ! (i + 2) = map Some (map (g i) xs)"
      "\<forall>r. r \<notin> (\<lambda>i. i + 2) ` {..<p - 1} \<longrightarrow> M' ! r = M1 ! r"
    by blast
  have u: "unsigned_sub p 1 = p - 1" using p by simp
  have r0: "M' ! 0 = map Some (map a xs)"
  proof -
    have "M' ! 0 = M1 ! 0" using M'(5) by auto
    then show ?thesis using p by (simp add: M1_def)
  qed
  have r1: "M' ! 1 = map Some (map b xs)"
  proof -
    have "M' ! 1 = M1 ! 1" using M'(5) by auto
    then show ?thesis using p by (simp add: M1_def)
  qed
  have edges: "M' ! (i + 2) = map Some (map (g i) xs)" if "i + 2 \<le> p" for i
    using that M'(4) by simp
  show ?thesis
    unfolding N start u
    using M'(1,2,3) len1 r0 r1 edges by (intro exI [of _ M']) auto
qed

lemma Segment_Eval_unfold:
  "Segment_EvalReferenceShapeFunctions fe [map Some xs] =
     bind (row [map Some xs] 0) (\<lambda>ys.
      bind (unaryExpr (\<lambda>x. Inr (1 - x)) ys) (\<lambda>r0.
      bind (set_row 0 r0 (Matrix (u32 (segment_degree fe + 1)) (length xs))) (\<lambda>result.
      bind (unaryExpr (\<lambda>x. Inr x) ys) (\<lambda>r1.
      bind (set_row 1 r1 result) (\<lambda>result.
      for_loop [0..<unsigned_sub (segment_degree fe) 1] (\<lambda>i result.
        bind (int_expr (i + 2)) (\<lambda>k.
        bind (unaryExpr (\<lambda>x. LegendrePoly_integral k x) ys) (\<lambda>r.
        set_row k r result))) result)))))"
  unfolding Segment_EvalReferenceShapeFunctions_def Segment_NumRefShapeFunctions_def Let_def
  by (simp only: rows_single LF_ASSERT_MSG_True cols_Cons length_map simp_thms)

lemma Segment_Gradients_unfold:
  "Segment_GradientsReferenceShapeFunctions fe [map Some xs] =
     bind (row [map Some xs] 0) (\<lambda>ys.
      bind (unaryExpr (\<lambda>x. Inr (- 1)) ys) (\<lambda>r0.
      bind (set_row 0 r0 (Matrix (u32 (segment_degree fe + 1)) (length xs))) (\<lambda>result.
      bind (unaryExpr (\<lambda>x. Inr 1) ys) (\<lambda>r1.
      bind (set_row 1 r1 result) (\<lambda>result.
      for_loop [0..<unsigned_sub (segment_degree fe) 1] (\<lambda>i result.
        bind (int_expr (i + 2)) (\<lambda>k.
        bind (unaryExpr (\<lambda>x. LegendrePoly_eval (i + 1) x) ys) (\<lambda>r.
        set_row k r result))) result)))))"
  unfolding Segment_GradientsReferenceShapeFunctions_def Segment_NumRefShapeFunctions_def Let_def
  by (simp only: rows_single LF_ASSERT_MSG_True cols_Cons length_map simp_thms)

lemma Segment_Eval_rows_wrapped:
  assumes p: "1 \<le> segment_degree fe" and pB: "segment_degree fe < 2147483648"
  shows "\<exists>M. Segment_EvalReferenceShapeFunctions fe [map Some xs] = Inr M \<and>
    length M = segment_degree fe + 1 \<and>
    (\<forall>r \<le> segment_degree fe. length (M ! r) = length xs) \<and>
    M ! 0 = map Some (map (\<lambda>x. 1 - x) xs) \<and> M ! 1 = map Some xs \<and>
    (\<forall>i. i + 2 \<le> segment_degree fe \<longrightarrow>
       M ! (i + 2) = map Some (map (wrapped_integrated_legendre (i + 2)) xs))"
proof -
  have f: "LegendrePoly_integral (i + 2) x = Inr (wrapped_integrated_legendre (i + 2) x)"
    if "i + 2 \<le> segment_degree fe" for i x
    using that pB by (intro LegendrePoly_integral_wrapped) simp
  from Segment_rows_generic [OF p pB, of "\<lambda>k i. LegendrePoly_integral k"
      "\<lambda>i. wrapped_integrated_legendre (i + 2)" xs "\<lambda>x. 1 - x" "\<lambda>x. x", OF f]
  show ?thesis unfolding Segment_Eval_unfold by simp
qed

lemma Segment_Eval_rows:
  assumes p: "1 \<le> segment_degree fe" and pB: "segment_degree fe \<le> 1073741824"
  shows "\<exists>M. Segment_EvalReferenceShapeFunctions fe [map Some xs] = Inr M \<and>
    length M = segment_degree fe + 1 \<and>
    (\<forall>r \<le> segment_degree fe. length (M ! r) = length xs) \<and>
    M ! 0 = map Some (map (\<lambda>x. 1 - x) xs) \<and> M ! 1 = map Some xs \<and>
    (\<forall>i. i + 2 \<le> segment_degree fe \<longrightarrow>
       M ! (i + 2) = map Some (map (integrated_legendre (i + 2)) xs))"
proof -
  have pB': "segment_degree fe < 2147483648" using pB by simp
  have e: "wrapped_integrated_legendre (i + 2) = integrated_legendre (i + 2)"
    if "i + 2 \<le> segment_degree fe" for i
    using that pB by (intro ext wrapped_integrated_legendre_eq) simp
  from Segment_Eval_rows_wrapped [OF p pB', of xs] obtain M where
    M: "Segment_EvalReferenceShapeFunctions fe [map Some xs] = Inr M"
      "length M = segment_degree fe + 1"
      "\<forall>r \<le> segment_degree fe. length (M ! r) = length xs"
      "M ! 0 = map Some (map (\<lambda>x. 1 - x) xs)" "M ! 1 = map Some xs"
      "\<forall>i. i + 2 \<le> segment_degree fe \<longrightarrow>
         M ! (i + 2) = map Some (map (wrapped_integrated_legendre (i + 2)) xs)"
    by blast
  have "M ! (i + 2) = map Some (map (integrated_legendre (i + 2)) xs)"
    if "i + 2 \<le> segment_degree fe" for i
    using M(6) that e [OF that] by simp
  with M(1-5) show ?thesis by blast
qed

lemma Segment_Gradients_rows:
  assumes p: "1 \<le> segment_degree fe" and pB: "segment_degree fe < 2147483648"
  shows "\<exists>M. Segment_GradientsReferenceShapeFunctions fe [map Some xs] = Inr M \<and>
    length M = segment_degree fe + 1 \<and>
    (\<forall>r \<le> segment_degree fe. length (M ! r) = length xs) \<and>
    M ! 0 = map Some (map (\<lambda>x. - 1) xs) \<and> M ! 1 = map Some (map (\<lambda>x. 1) xs) \<and>
    (\<forall>i. i + 2 \<le> segment_degree fe \<longrightarrow>
       M ! (i + 2) = map Some (map (\<lambda>x. legendre (i + 1) (2 * x - 1)) xs))"
proof -
  have f: "LegendrePoly_eval (i + 1) x = Inr (legendre (i + 1) (2 * x - 1))"
    if "i + 2 \<le> segment_degree fe" for i x
    using that pB by (intro LegendrePoly_eval_eq) simp
  from Segment_rows_generic [OF p pB, of "\<lambda>k i. LegendrePoly_eval (i + 1)"
      "\<lambda>i x. legendre (i + 1) (2 * x - 1)" xs "\<lambda>x. - 1" "\<lambda>x. 1", OF f]
  show ?thesis unfolding Segment_Gradients_unfold by simp
qed

lemma integrated_legendre_endpoints:
  "integrated_legendre (Suc (Suc k)) 0 = 0" "integrated_legendre (Suc (Suc k)) 1 = 0"
  by (simp_all add: integrated_legendre_def del: legendre.simps)

lemma integrated_legendre_deriv:
  "(integrated_legendre (Suc (Suc k)) has_real_derivative legendre (Suc k) (2 * x - 1)) (at x)"
proof -
  have e: "integrated_legendre (Suc (Suc k)) =
      (\<lambda>t. (legendre (Suc (Suc k)) (2 * t - 1) - legendre k (2 * t - 1)) / real (4 * k + 6))"
  proof (rule ext)
    fix t
    have "4 * Suc (Suc k) - 2 = 4 * k + 6" by simp
    then show "integrated_legendre (Suc (Suc k)) t =
      (legendre (Suc (Suc k)) (2 * t - 1) - legendre k (2 * t - 1)) / real (4 * k + 6)"
      unfolding integrated_legendre_def by simp
  qed
  show ?thesis unfolding e by (rule integrated_legendre_derivative)
qed


section \<open>The segment: interior bubbles, bounds, the scenario of degree 3\<close>

lemma wrapped_integrated_legendre_derivative:
  "((\<lambda>t. (legendre (Suc (Suc n)) (2 * t - 1) - legendre n (2 * t - 1)) / c)
      has_real_derivative (real (4 * n + 6) / c) * legendre (Suc n) (2 * x - 1)) (at x)"
proof -
  have e: "(\<lambda>t. (legendre (Suc (Suc n)) (2 * t - 1) - legendre n (2 * t - 1)) / c) =
      (\<lambda>t. (real (4 * n + 6) / c) *
         ((legendre (Suc (Suc n)) (2 * t - 1) - legendre n (2 * t - 1)) / real (4 * n + 6)))"
    by (rule ext) simp
  show ?thesis
    unfolding e by (rule DERIV_cmult [OF integrated_legendre_derivative])
qed

text \<open>
  Claim C6, for the degrees \<open>p\<close> from 1 to \<open>2 ^ 31 - 1\<close> and the bubbles \<open>k\<close> in
  \<open>0..p-2\<close> with \<open>k + 2 \<le> 2 ^ 30\<close>, at every \<open>x\<close>: row \<open>k + 2\<close> of
  \<open>EvalReferenceShapeFunctions\<close> at \<open>x\<close> is \<open>LegendrePoly::integral(k + 2, x)\<close>, row
  \<open>k + 2\<close> of \<open>GradientsReferenceShapeFunctions\<close> is \<open>LegendrePoly::eval(k + 1, x)\<close>,
  the gradient is the derivative of the value as a function of the real \<open>x\<close>,
  and the bubble is 0 at \<open>x = 0\<close> and at \<open>x = 1\<close>. Both evaluators succeed at
  every real argument; \<open>V\<close> and \<open>G\<close> are the functions they compute.
\<close>

theorem Segment_interior_bubbles:
  assumes "k + 2 \<le> segment_degree fe" and "segment_degree fe < 2147483648"
      and "k + 2 \<le> 1073741824"
  shows "\<exists>V G.
     (\<forall>t. LegendrePoly_integral (k + 2) t = Inr (V t)) \<and>
     (\<forall>t. LegendrePoly_eval (k + 1) t = Inr (G t)) \<and>
     (\<exists>M. Segment_EvalReferenceShapeFunctions fe [[Some x]] = Inr M \<and>
          M ! (k + 2) = [Some (V x)]) \<and>
     (\<exists>M. Segment_GradientsReferenceShapeFunctions fe [[Some x]] = Inr M \<and>
          M ! (k + 2) = [Some (G x)]) \<and>
     (\<forall>t. (V has_real_derivative G t) (at t)) \<and> V 0 = 0 \<and> V 1 = 0"
proof -
  have p: "1 \<le> segment_degree fe" using assms by simp
  have w: "wrapped_integrated_legendre (k + 2) t = integrated_legendre (k + 2) t" for t
    by (rule wrapped_integrated_legendre_eq [OF assms(3)])
  from Segment_Eval_rows_wrapped [OF p assms(2), of "[x]"] assms(1) w [of x]
  have ev: "\<exists>M. Segment_EvalReferenceShapeFunctions fe [[Some x]] = Inr M \<and>
          M ! (k + 2) = [Some (integrated_legendre (k + 2) x)]"
    by auto
  from Segment_Gradients_rows [OF p assms(2), of "[x]"] assms(1)
  have gr: "\<exists>M. Segment_GradientsReferenceShapeFunctions fe [[Some x]] = Inr M \<and>
          M ! (k + 2) = [Some (legendre (k + 1) (2 * x - 1))]"
    by auto
  have d: "(integrated_legendre (k + 2) has_real_derivative legendre (k + 1) (2 * t - 1)) (at t)"
    for t using integrated_legendre_deriv [of k t] by simp
  have z: "integrated_legendre (k + 2) 0 = 0" "integrated_legendre (k + 2) 1 = 0"
    using integrated_legendre_endpoints [of k] by simp_all
  have iv: "LegendrePoly_integral (k + 2) t = Inr (integrated_legendre (k + 2) t)" for t
    by (rule LegendrePoly_integral_value [OF assms(3)])
  have gv: "LegendrePoly_eval (k + 1) t = Inr (legendre (k + 1) (2 * t - 1))" for t
    using assms(3) by (intro LegendrePoly_eval_eq) simp
  show ?thesis
    apply (rule exI [of _ "integrated_legendre (k + 2)"])
    apply (rule exI [of _ "\<lambda>t. legendre (k + 1) (2 * t - 1)"])
    using ev gr d z iv gv by blast
qed

theorem Segment_interior_bubbles_witness:
  "\<exists>V G.
     (\<forall>t. LegendrePoly_integral 3 t = Inr (V t)) \<and>
     (\<forall>t. LegendrePoly_eval 2 t = Inr (G t)) \<and>
     (\<exists>M. Segment_EvalReferenceShapeFunctions
            \<lparr>segment_degree = 3, segment_eval_nodes = [], segment_rel_orient = []\<rparr>
            [[Some (1 / 4)]] = Inr M \<and> M ! 3 = [Some (V (1 / 4))]) \<and>
     (\<exists>M. Segment_GradientsReferenceShapeFunctions
            \<lparr>segment_degree = 3, segment_eval_nodes = [], segment_rel_orient = []\<rparr>
            [[Some (1 / 4)]] = Inr M \<and> M ! 3 = [Some (G (1 / 4))]) \<and>
     (\<forall>t. (V has_real_derivative G t) (at t)) \<and> V 0 = 0 \<and> V 1 = 0"
proof -
  have h: "1 + 2 \<le> segment_degree
      \<lparr>segment_degree = 3, segment_eval_nodes = [], segment_rel_orient = []\<rparr>"
    "segment_degree
      \<lparr>segment_degree = 3, segment_eval_nodes = [], segment_rel_orient = []\<rparr> < 2147483648"
    "(1::nat) + 2 \<le> 1073741824"
    by simp_all
  have e: "(1::nat) + 2 = 3" "(1::nat) + 1 = 2" by simp_all
  show ?thesis using Segment_interior_bubbles [OF h, of "1 / 4"] unfolding e .
qed

text \<open>
  Claim C6 as it is stated, for every degree and every bubble, fails at the bubble
  \<open>k = 2 ^ 30 - 1\<close> of a segment of degree \<open>2 ^ 30 + 1\<close>: the divisor \<open>4 * n - 2\<close> of
  \<open>LegendrePoly::integral\<close> at \<open>n = 2 ^ 30 + 1\<close> is 2 in unsigned arithmetic, so the value
  \<open>V\<close> in row \<open>k + 2\<close> has the derivative 2147483649 at \<open>x = 1\<close>, where the gradient in row
  \<open>k + 2\<close>, \<open>LegendrePoly::eval(k + 1, 1)\<close>, is 1.
\<close>

theorem Segment_interior_bubbles_counterexample:
  "\<exists>V. (\<forall>t. LegendrePoly_integral 1073741825 t = Inr (V t)) \<and>
     (\<exists>M. Segment_EvalReferenceShapeFunctions
            \<lparr>segment_degree = 1073741825, segment_eval_nodes = [], segment_rel_orient = []\<rparr>
            [[Some 1]] = Inr M \<and> M ! 1073741825 = [Some (V 1)]) \<and>
     (\<exists>M. Segment_GradientsReferenceShapeFunctions
            \<lparr>segment_degree = 1073741825, segment_eval_nodes = [], segment_rel_orient = []\<rparr>
            [[Some 1]] = Inr M \<and> M ! 1073741825 = [Some 1]) \<and>
     LegendrePoly_eval 1073741824 1 = Inr 1 \<and>
     (V has_real_derivative 2147483649) (at 1) \<and>
     \<not> (V has_real_derivative 1) (at 1)"
proof -
  define fe where "fe = \<lparr>segment_degree = 1073741825, segment_eval_nodes = [],
      segment_rel_orient = []\<rparr>"
  define V where "V = wrapped_integrated_legendre 1073741825"
  have p: "1 \<le> segment_degree fe" and pB: "segment_degree fe < 2147483648"
    by (simp_all add: fe_def)
  have n: "(1073741825::nat) = Suc (Suc 1073741823)" by simp
  have k: "(1073741823::nat) + 2 = 1073741825" "(1073741823::nat) + 1 = 1073741824" by simp_all
  have iv: "LegendrePoly_integral 1073741825 t = Inr (V t)" for t
    unfolding V_def by (rule LegendrePoly_integral_wrapped) simp
  have gv: "LegendrePoly_eval 1073741824 1 = Inr 1"
    using LegendrePoly_eval_eq [of 1073741824 1] by simp
  from Segment_Eval_rows_wrapped [OF p pB, of "[1]"]
  have ev: "\<exists>M. Segment_EvalReferenceShapeFunctions fe [[Some 1]] = Inr M \<and>
      M ! 1073741825 = [Some (V 1)]"
    unfolding V_def by (auto simp: fe_def dest: spec [of _ 1073741823])
  from Segment_Gradients_rows [OF p pB, of "[1]"]
  have gr: "\<exists>M. Segment_GradientsReferenceShapeFunctions fe [[Some 1]] = Inr M \<and>
      M ! 1073741825 = [Some 1]"
    by (auto simp: fe_def dest: spec [of _ 1073741823])
  have d2: "unsigned_sub (u32 4294967300) 2 = 2"
    by (simp add: u32_def unsigned_sub_def)
  have Ve: "V = (\<lambda>t. (legendre (Suc (Suc 1073741823)) (2 * t - 1)
      - legendre 1073741823 (2 * t - 1)) / 2)"
    unfolding V_def
    by (rule ext) (simp add: wrapped_integrated_legendre_def d2 del: legendre.simps)
  have "(V has_real_derivative
      (real (4 * 1073741823 + 6) / 2) * legendre (Suc 1073741823) (2 * 1 - 1)) (at 1)"
    unfolding Ve by (rule wrapped_integrated_legendre_derivative)
  then have d: "(V has_real_derivative 2147483649) (at 1)"
    by (simp del: legendre.simps)
  have nd: "\<not> (V has_real_derivative 1) (at 1)"
  proof
    assume "(V has_real_derivative 1) (at 1)"
    from DERIV_unique [OF this d] show False by simp
  qed
  from iv ev gr gv d nd show ?thesis unfolding fe_def by blast
qed

lemma Segment_Eval_degree_0:
  "segment_degree fe = 0 \<Longrightarrow>
     Segment_EvalReferenceShapeFunctions fe [map Some xs] = Inl OutOfBounds"
  unfolding Segment_Eval_unfold
  by (simp add: row_def unaryExpr_Inr set_row_def)

lemma Segment_Gradients_degree_0:
  "segment_degree fe = 0 \<Longrightarrow>
     Segment_GradientsReferenceShapeFunctions fe [map Some xs] = Inl OutOfBounds"
  unfolding Segment_Gradients_unfold
  by (simp add: row_def unaryExpr_Inr set_row_def)

lemma for_loop_failing:
  assumes "i \<in> set is" and "\<And>s. \<exists>e. body i s = Inl e"
  shows "\<exists>e. for_loop is body s = Inl e"
  using assms(1)
proof (induction "is" arbitrary: s)
  case Nil
  then show ?case by simp
next
  case (Cons j js)
  show ?case
  proof (cases "body j s")
    case (Inl e)
    then show ?thesis by simp
  next
    case (Inr s')
    show ?thesis
    proof (cases "i = j")
      case True
      with assms(2) [of s] Inr show ?thesis by simp
    next
      case False
      with Cons.prems have "i \<in> set js" by simp
      from Cons.IH [OF this, of s'] Inr show ?thesis by simp
    qed
  qed
qed

lemma bind_failing: "(\<And>v. \<exists>e. f v = Inl e) \<Longrightarrow> \<exists>e. bind m f = Inl e"
  by (cases m) simp_all

lemma Segment_Eval_int_overflow:
  assumes "2147483648 \<le> segment_degree fe"
  shows "\<exists>e. Segment_EvalReferenceShapeFunctions fe [map Some xs] = Inl e"
proof -
  have u: "unsigned_sub (segment_degree fe) 1 = segment_degree fe - 1" using assms by simp
  have i: "2147483646 \<in> set [0..<segment_degree fe - 1]" using assms by simp
  have "\<exists>e. for_loop [0..<segment_degree fe - 1] (\<lambda>i result.
        bind (int_expr (i + 2)) (\<lambda>k.
        bind (unaryExpr (\<lambda>x. LegendrePoly_integral k x) ys) (\<lambda>r.
        set_row k r result))) M = Inl e" for ys M
    by (rule for_loop_failing [OF i]) simp
  then show ?thesis
    unfolding Segment_Eval_unfold u by (intro bind_failing)
qed

lemma Segment_Gradients_int_overflow:
  assumes "2147483648 \<le> segment_degree fe"
  shows "\<exists>e. Segment_GradientsReferenceShapeFunctions fe [map Some xs] = Inl e"
proof -
  have u: "unsigned_sub (segment_degree fe) 1 = segment_degree fe - 1" using assms by simp
  have i: "2147483646 \<in> set [0..<segment_degree fe - 1]" using assms by simp
  have "\<exists>e. for_loop [0..<segment_degree fe - 1] (\<lambda>i result.
        bind (int_expr (i + 2)) (\<lambda>k.
        bind (unaryExpr (\<lambda>x. LegendrePoly_eval (i + 1) x) ys) (\<lambda>r.
        set_row k r result))) M = Inl e" for ys M
    by (rule for_loop_failing [OF i]) simp
  then show ?thesis
    unfolding Segment_Gradients_unfold u by (intro bind_failing)
qed

text \<open>
  Claim C10, with the upper bound that the \<^verbatim>\<open>int\<close> counter of the loops sets. The segment's
  \<open>EvalReferenceShapeFunctions\<close> and \<open>GradientsReferenceShapeFunctions\<close> stay within the
  bounds of their result, which has \<open>NumRefShapeFunctions() = p + 1\<close> rows, if and only if
  the degree is at least 1 and at most \<open>2 ^ 31 - 1\<close>: for these \<open>p\<close> every row written
  exists and the call returns the matrix, for \<open>p = 0\<close> the write of row 1 into the matrix
  of one row is out of bounds, and from \<open>p = 2 ^ 31\<close> on the call fails. The batch of
  points is any row vector \<open>xs\<close>.
\<close>

theorem Segment_in_bounds_iff:
  "((\<exists>M. Segment_EvalReferenceShapeFunctions fe [map Some xs] = Inr M \<and>
         rows M = Segment_NumRefShapeFunctions fe \<and> rows M = segment_degree fe + 1)
      \<longleftrightarrow> 1 \<le> segment_degree fe \<and> segment_degree fe < 2147483648) \<and>
   ((\<exists>M. Segment_GradientsReferenceShapeFunctions fe [map Some xs] = Inr M \<and>
         rows M = Segment_NumRefShapeFunctions fe \<and> rows M = segment_degree fe + 1)
      \<longleftrightarrow> 1 \<le> segment_degree fe \<and> segment_degree fe < 2147483648) \<and>
   (segment_degree fe = 0 \<longrightarrow>
      Segment_EvalReferenceShapeFunctions fe [map Some xs] = Inl OutOfBounds \<and>
      Segment_GradientsReferenceShapeFunctions fe [map Some xs] = Inl OutOfBounds)"
proof -
  consider "segment_degree fe = 0"
    | "1 \<le> segment_degree fe" "segment_degree fe < 2147483648"
    | "2147483648 \<le> segment_degree fe" by arith
  then show ?thesis
  proof cases
    case 1
    then show ?thesis
      by (simp add: Segment_Eval_degree_0 [OF 1] Segment_Gradients_degree_0 [OF 1])
  next
    case 2
    have N: "Segment_NumRefShapeFunctions fe = segment_degree fe + 1"
      using 2(2) by (simp add: Segment_NumRefShapeFunctions_def)
    from Segment_Eval_rows_wrapped [OF 2, of xs] Segment_Gradients_rows [OF 2, of xs] 2
    show ?thesis by (auto simp: rows_def N)
  next
    case 3
    from Segment_Eval_int_overflow [OF 3, of xs] Segment_Gradients_int_overflow [OF 3, of xs] 3
    show ?thesis by auto
  qed
qed

theorem Segment_in_bounds_iff_witness:
  "(\<exists>M. Segment_EvalReferenceShapeFunctions
          \<lparr>segment_degree = 2, segment_eval_nodes = [], segment_rel_orient = []\<rparr>
          [map Some [0, 1]] = Inr M \<and> rows M = 3) \<and>
   (\<exists>M. Segment_GradientsReferenceShapeFunctions
          \<lparr>segment_degree = 2, segment_eval_nodes = [], segment_rel_orient = []\<rparr>
          [map Some [0, 1]] = Inr M \<and> rows M = 3) \<and>
   Segment_EvalReferenceShapeFunctions
     \<lparr>segment_degree = 0, segment_eval_nodes = [], segment_rel_orient = []\<rparr>
     [map Some [0, 1]] = Inl OutOfBounds \<and>
   Segment_GradientsReferenceShapeFunctions
     \<lparr>segment_degree = 0, segment_eval_nodes = [], segment_rel_orient = []\<rparr>
     [map Some [0, 1]] = Inl OutOfBounds"
  using Segment_in_bounds_iff
      [of "\<lparr>segment_degree = 2, segment_eval_nodes = [], segment_rel_orient = []\<rparr>" "[0, 1]"]
    Segment_in_bounds_iff
      [of "\<lparr>segment_degree = 0, segment_eval_nodes = [], segment_rel_orient = []\<rparr>" "[0, 1]"]
  by (simp add: Segment_NumRefShapeFunctions_def)

text \<open>
  Claim C10 as it is stated, in bounds for every degree \<open>p \<ge> 1\<close>, fails at the degree
  \<open>2 ^ 32 - 1\<close>: \<open>NumRefShapeFunctions()\<close>, the unsigned sum \<open>degree_ + 1\<close>, is 0 there, and
  the write of row 0 into the matrix without rows is out of bounds.
\<close>

theorem Segment_in_bounds_counterexample:
  "Segment_NumRefShapeFunctions
     \<lparr>segment_degree = 4294967295, segment_eval_nodes = [], segment_rel_orient = []\<rparr> = 0 \<and>
   Segment_EvalReferenceShapeFunctions
     \<lparr>segment_degree = 4294967295, segment_eval_nodes = [], segment_rel_orient = []\<rparr>
     [map Some [0, 1]] = Inl OutOfBounds \<and>
   Segment_GradientsReferenceShapeFunctions
     \<lparr>segment_degree = 4294967295, segment_eval_nodes = [], segment_rel_orient = []\<rparr>
     [map Some [0, 1]] = Inl OutOfBounds"
proof -
  have N: "u32 (4294967295 + 1) = 0" by (simp add: u32_def)
  have r: "row [map Some [0, 1]] 0 = Inr [0, 1]" by (simp add: row_def read_cell_def)
  have s: "set_row 0 v (Matrix 0 c) = Inl OutOfBounds" for v c
    by (simp add: set_row_def)
  have u: "unaryExpr (\<lambda>x. Inr (f x)) [0, 1] = Inr [f 0, f 1]" for f :: "real \<Rightarrow> real"
    by (simp add: unaryExpr_def)
  show ?thesis
    unfolding Segment_Eval_unfold Segment_Gradients_unfold Segment_NumRefShapeFunctions_def
    by (simp only: FeHierarchicSegment.simps N r s u bind_Inr bind_Inl simp_thms)
qed

lemma Segment_ComputeEvaluationNodes_eq:
  assumes "1 \<le> p" and "1 < p \<Longrightarrow> length (chebyshevNodes (p - 1)) = p - 1"
  shows "Segment_ComputeEvaluationNodes chebyshevNodes p =
         Inr [map Some ([0, 1] @ (if 1 < p then chebyshevNodes (p - 1) else []))]"
proof -
  from assms(1) obtain q where p: "p = Suc q" by (cases p) simp_all
  have M: "Matrix 1 (p + 1) = [None # None # replicate q None]"
    by (simp add: Matrix_def p)
  show ?thesis
  proof (cases "1 < p")
    case False
    then have "q = 0" using p by simp
    then show ?thesis
      unfolding Segment_ComputeEvaluationNodes_def Let_def M
      using False by (simp add: set_coeff_def)
  next
    case True
    then have u: "unsigned_sub p 1 = q" using p by simp
    have len: "length (chebyshevNodes q) = q" using assms(2) [OF True] p by simp
    show ?thesis
      unfolding Segment_ComputeEvaluationNodes_def Let_def M u
      using True len p by (simp add: set_coeff_def set_block_row_def)
  qed
qed

lemma new_FeHierarchicSegment_eq:
  assumes "1 \<le> p" and "1 < p \<Longrightarrow> length (chebyshevNodes (p - 1)) = p - 1"
  shows "new_FeHierarchicSegment chebyshevNodes p rel_orient =
         Inr \<lparr>segment_degree = p,
              segment_eval_nodes =
                [map Some ([0, 1] @ (if 1 < p then chebyshevNodes (p - 1) else []))],
              segment_rel_orient = rel_orient\<rparr>"
proof -
  have "Segment_ComputeEvaluationNodes chebyshevNodes p =
         Inr [map Some ([0, 1] @ (if 1 < p then chebyshevNodes (p - 1) else []))]"
    using assms by (rule Segment_ComputeEvaluationNodes_eq)
  then show ?thesis
    unfolding new_FeHierarchicSegment_def by (simp only: bind_Inr)
qed

text \<open>
  Claim C8. The segment of degree 3 has 4 shape functions; its evaluation
  nodes are 0 and 1 followed by the two nodes \<open>chebyshevNodes 2\<close>; and
  \<open>EvalReferenceShapeFunctions\<close> at the points \<open>0, 1, 1/2\<close> has the row 0
  equal to \<open>[1, 0, 1/2]\<close> and the row 1 equal to \<open>[0, 1, 1/2]\<close>. The
  hypothesis says that \<open>chebyshevNodes 2\<close> returns two nodes.
\<close>

theorem Segment_degree_3_scenario:
  assumes "length (chebyshevNodes 2) = 2"
  shows "\<exists>fe. new_FeHierarchicSegment chebyshevNodes 3 rel_orient = Inr fe \<and>
     Segment_NumRefShapeFunctions fe = 4 \<and>
     Segment_EvaluationNodes fe = [map Some ([0, 1] @ chebyshevNodes 2)] \<and>
     (\<exists>M. Segment_EvalReferenceShapeFunctions fe [[Some 0, Some 1, Some (1 / 2)]] = Inr M \<and>
          rows M = 4 \<and>
          M ! 0 = [Some 1, Some 0, Some (1 / 2)] \<and>
          M ! 1 = [Some 0, Some 1, Some (1 / 2)])"
proof -
  define fe where "fe = \<lparr>segment_degree = 3,
      segment_eval_nodes = [map Some ([0, 1] @ chebyshevNodes 2)],
      segment_rel_orient = rel_orient\<rparr>"
  have new: "new_FeHierarchicSegment chebyshevNodes 3 rel_orient = Inr fe"
    using new_FeHierarchicSegment_eq [of 3 chebyshevNodes rel_orient] assms
    by (simp add: fe_def)
  have p: "1 \<le> segment_degree fe" and pB: "segment_degree fe \<le> 1073741824"
    by (simp_all add: fe_def)
  from Segment_Eval_rows [OF p pB, of "[0, 1, 1 / 2]"]
  have "\<exists>M. Segment_EvalReferenceShapeFunctions fe [[Some 0, Some 1, Some (1 / 2)]] = Inr M \<and>
          rows M = 4 \<and>
          M ! 0 = [Some 1, Some 0, Some (1 / 2)] \<and>
          M ! 1 = [Some 0, Some 1, Some (1 / 2)]"
    by (auto simp: fe_def rows_def)
  with new show ?thesis
    by (intro exI [of _ fe]) (simp add: fe_def Segment_NumRefShapeFunctions_def
        Segment_EvaluationNodes_def)
qed

theorem Segment_degree_3_scenario_witness:
  "\<exists>fe. new_FeHierarchicSegment (\<lambda>n. map (\<lambda>k. (2 * real k + 1) / (2 * real n)) [0..<n])
          3 [positive] = Inr fe \<and>
     Segment_NumRefShapeFunctions fe = 4 \<and>
     Segment_EvaluationNodes fe = [[Some 0, Some 1, Some (1 / 4), Some (3 / 4)]] \<and>
     (\<exists>M. Segment_EvalReferenceShapeFunctions fe [[Some 0, Some 1, Some (1 / 2)]] = Inr M \<and>
          rows M = 4 \<and>
          M ! 0 = [Some 1, Some 0, Some (1 / 2)] \<and>
          M ! 1 = [Some 0, Some 1, Some (1 / 2)])"
  using Segment_degree_3_scenario
    [of "\<lambda>n. map (\<lambda>k. (2 * real k + 1) / (2 * real n)) [0..<n]" "[positive]"]
  by (simp add: upt_rec)

lemma Segment_Eval_rel_orient:
  "segment_degree fe1 = segment_degree fe2 \<Longrightarrow>
   Segment_EvalReferenceShapeFunctions fe1 refcoords =
   Segment_EvalReferenceShapeFunctions fe2 refcoords"
  by (simp add: Segment_EvalReferenceShapeFunctions_def Segment_NumRefShapeFunctions_def)

lemma Segment_Gradients_rel_orient:
  "segment_degree fe1 = segment_degree fe2 \<Longrightarrow>
   Segment_GradientsReferenceShapeFunctions fe1 refcoords =
   Segment_GradientsReferenceShapeFunctions fe2 refcoords"
  by (simp add: Segment_GradientsReferenceShapeFunctions_def Segment_NumRefShapeFunctions_def)




section \<open>Loop invariants, vectors and the Jacobi evaluators\<close>

lemma bind_ex:
  assumes "\<exists>v. m = Inr v \<and> P v" and "\<And>v. P v \<Longrightarrow> \<exists>t. f v = Inr t \<and> Q t"
  shows "\<exists>t. bind m f = Inr t \<and> Q t"
  using assms by auto

lemma for_loop_invariant:
  assumes "I 0 s"
      and "\<And>i s. i < n \<Longrightarrow> I i s \<Longrightarrow> \<exists>s'. body i s = Inr s' \<and> I (Suc i) s'"
  shows "\<exists>s'. for_loop [0..<n] body s = Inr s' \<and> I n s'"
  using assms(2)
proof (induction n)
  case 0
  show ?case using assms(1) by simp
next
  case (Suc n)
  then obtain s1 where s1: "for_loop [0..<n] body s = Inr s1" "I n s1"
    by (metis less_Suc_eq)
  from Suc.prems [of n s1] s1(2) obtain s2 where s2: "body n s1 = Inr s2" "I (Suc n) s2"
    by auto
  have "for_loop [0..<Suc n] body s = Inr s2"
    by (subst for_loop_upt_Suc) (simp_all add: s1(1) s2(1) del: upt_Suc)
  with s2(2) show ?case by blast
qed

lemma for_loop_total:
  assumes "\<And>i s. i \<in> set is \<Longrightarrow> \<exists>s'. body i s = Inr s'"
  shows "\<exists>s'. for_loop is body s = Inr s'"
  using assms
proof (induction "is" arbitrary: s)
  case Nil
  show ?case by simp
next
  case (Cons i "is")
  from Cons.prems [of i s] obtain s1 where s1: "body i s = Inr s1" by auto
  from Cons.IH [of s1] Cons.prems obtain s2 where "for_loop is body s1 = Inr s2" by auto
  with s1 show ?case by simp
qed

lemma guarded_ratio_eq [simp]: "guarded_ratio a s = Inr (ratio a s)"
  by (simp add: guarded_ratio_def ratio_def)

lemma elem_Inr [simp]: "i < length v \<Longrightarrow> elem v i = Inr (v ! i)"
  by (simp add: elem_def)

lemma partial_vector_0: "partial_vector n 0 g = RowVectorXd n"
  by (simp add: partial_vector_def RowVectorXd_def)

lemma length_partial_vector [simp]: "k \<le> n \<Longrightarrow> length (partial_vector n k g) = n"
  by (simp add: partial_vector_def)

lemma set_elem_partial_vector:
  assumes "k < n"
  shows "set_elem k x (partial_vector n k g) = Inr (partial_vector n (Suc k) (g(k := x)))"
proof -
  have r: "replicate (n - k) None = None # replicate (n - Suc k) (None :: real option)"
    using assms by (metis Suc_diff_Suc replicate_Suc)
  have m: "map (\<lambda>i. Some ((g(k := x)) i)) [0..<k] = map (\<lambda>i. Some (g i)) [0..<k]"
    by simp
  show ?thesis
    using assms unfolding set_elem_def partial_vector_def r
    by (simp add: list_update_append m del: replicate_Suc)
qed

lemma partial_vector_cong:
  "(\<And>i. i < k \<Longrightarrow> g i = h i) \<Longrightarrow> partial_vector n k g = partial_vector n k h"
  by (simp add: partial_vector_def)

lemma partial_vector_full:
  "partial_vector (length pts) (length pts) (\<lambda>i. f (pts ! i)) = map Some (map f pts)"
proof -
  have "map (\<lambda>i. Some (f (pts ! i))) [0..<length pts] = map (\<lambda>p. Some (f p)) pts"
    by (rule nth_equalityI) simp_all
  then show ?thesis by (simp add: partial_vector_def comp_def)
qed

lemma mapM_read_cell_map [simp]: "mapM read_cell (map (\<lambda>x. Some (f x)) xs) = Inr (map f xs)"
  by (induction xs) (simp_all add: read_cell_def)

lemma mapM_read_cell_comp [simp]: "mapM read_cell (map (Some \<circ> f) xs) = Inr (map f xs)"
  by (induction xs) (simp_all add: read_cell_def)

lemma vector_value_Some [simp]: "vector_value (map Some v) = Inr v"
  by (simp add: vector_value_def)

lemma vector_value_map [simp]: "vector_value (map (\<lambda>x. Some (f x)) xs) = Inr (map f xs)"
  by (simp add: vector_value_def)

lemma vector_value_comp [simp]: "vector_value (map (Some \<circ> f) xs) = Inr (map f xs)"
  by (simp add: vector_value_def)

lemma cwise_map:
  "cwise f (map g pts) (map h pts) = Inr (map (\<lambda>p. f (g p) (h p)) pts)"
  by (simp add: cwise_def map2_map_map)

lemma cwise_replicate_map:
  "cwise f (replicate (length pts) c) (map h pts) = Inr (map (\<lambda>p. f c (h p)) pts)"
proof -
  have "replicate (length pts) c = map (\<lambda>p. c) pts" by (simp add: map_replicate_const)
  then show ?thesis by (simp add: cwise_map)
qed

lemma Tria_edge_expr_value:
  assumes "i + 2 \<le> 1073741824"
  shows "Tria_edge_expr (map fa pts) (map fb pts) (map Some (map fr pts)) i =
     Inr (map (\<lambda>p. (fa p + fb p) ^ (i + 2) * integrated_legendre (i + 2) (fr p)) pts)"
proof -
  have ie: "int_expr (i + 2) = Inr (i + 2)" using assms by simp
  have pw: "unaryExpr (\<lambda>x. Inr (x ^ (i + 2))) (map (\<lambda>p. fa p + fb p) pts) =
      Inr (map (\<lambda>p. (fa p + fb p) ^ (i + 2)) pts)"
  proof -
    have "unaryExpr (\<lambda>x. Inr (x ^ (i + 2))) xs = Inr (map (\<lambda>x. x ^ (i + 2)) xs)"
      for xs :: "real list" by (rule unaryExpr_Inr) (rule refl)
    then show ?thesis by (simp only: map_map comp_def)
  qed
  have lg: "unaryExpr (\<lambda>x. LegendrePoly_integral (i + 2) x) (map fr pts) =
      Inr (map (\<lambda>p. integrated_legendre (i + 2) (fr p)) pts)"
  proof -
    have "unaryExpr (\<lambda>x. LegendrePoly_integral (i + 2) x) xs =
        Inr (map (integrated_legendre (i + 2)) xs)" for xs
      by (rule unaryExpr_Inr) (rule LegendrePoly_integral_value [OF assms])
    then show ?thesis by (simp only: map_map comp_def)
  qed
  show ?thesis
    unfolding Tria_edge_expr_def ie bind_Inr
    by (simp only: cwise_map bind_Inr pw lg vector_value_Some)
qed

lemma row_coords [simp]:
  "row (coords pts) 0 = Inr (map fst pts)" "row (coords pts) 1 = Inr (map snd pts)"
  by (simp_all add: coords_def row_def)

lemma cols_coords [simp]: "cols (coords pts) = length pts"
  by (simp add: coords_def)


lemma jacobi_a_pos:
  assumes "0 \<le> alpha" "1 \<le> j"
  shows "0 < real (2 * (j + 1)) * (real (j + 1) + alpha) * (real (2 * (j + 1)) + alpha - 2)"
proof -
  have "0 < real (2 * (j + 1))" by simp
  moreover have "0 < real (j + 1) + alpha" using assms by (simp add: add_pos_nonneg)
  moreover have "0 < real (2 * (j + 1)) + alpha - 2"
  proof -
    have "1 \<le> real j" using assms(2) by simp
    then show ?thesis using assms(1) by simp
  qed
  ultimately show ?thesis by (intro mult_pos_pos)
qed

lemma JacobiPoly_integral_total:
  assumes "0 \<le> alpha" and nB: "n < 2147483648"
  shows "\<exists>v. JacobiPoly_integral n alpha x = Inr v"
proof -
  have loop: "\<exists>s'. for_loop [2..<n] (\<lambda>j (Pjm2, Pjm1, Pj).
                    let ajp1P = real (u32 (2 * (j + 1))) * (real (u32 (j + 1)) + alpha)
                                  * (real (u32 (2 * (j + 1))) + alpha - 2);
                        bjp1P = real (u32 (2 * (j + 1))) + alpha - 1;
                        cjp1P = (real (u32 (2 * (j + 1))) + alpha)
                                  * (real (u32 (2 * (j + 1))) + alpha - 2);
                        djp1P = 2 * (real (u32 (j + 1)) + alpha - 1)
                                  * real (unsigned_sub (u32 (j + 1)) 1)
                                  * (real (u32 (2 * (j + 1))) + alpha)
                    in bind (fdiv (bjp1P * (cjp1P * (2 * x - 1) + alpha * alpha) * Pj
                                    - djp1P * Pjm1) ajp1P)
                         (\<lambda>Pjp1. Inr (Pjm1, Pj, Pjp1))) s = Inr s'" for s
  proof (rule for_loop_total)
    fix j :: nat and s :: "real \<times> real \<times> real"
    assume "j \<in> set [2..<n]"
    then have j: "1 \<le> j" and jn: "j < n" by simp_all
    obtain a b c where s: "s = (a, b, c)" by (cases s)
    have u: "u32 (2 * (j + 1)) = 2 * (j + 1)" "u32 (j + 1) = j + 1"
      using jn nB by simp_all
    from jacobi_a_pos [OF assms(1) j]
    have nz: "real (2 * (j + 1)) * (real (j + 1) + alpha)
                * (real (2 * (j + 1)) + alpha - 2) \<noteq> 0"
      by (metis less_irrefl)
    show "\<exists>s'. (\<lambda>j (Pjm2, Pjm1, Pj).
                    let ajp1P = real (u32 (2 * (j + 1))) * (real (u32 (j + 1)) + alpha)
                                  * (real (u32 (2 * (j + 1))) + alpha - 2);
                        bjp1P = real (u32 (2 * (j + 1))) + alpha - 1;
                        cjp1P = (real (u32 (2 * (j + 1))) + alpha)
                                  * (real (u32 (2 * (j + 1))) + alpha - 2);
                        djp1P = 2 * (real (u32 (j + 1)) + alpha - 1)
                                  * real (unsigned_sub (u32 (j + 1)) 1)
                                  * (real (u32 (2 * (j + 1))) + alpha)
                    in bind (fdiv (bjp1P * (cjp1P * (2 * x - 1) + alpha * alpha) * Pj
                                    - djp1P * Pjm1) ajp1P)
                         (\<lambda>Pjp1. Inr (Pjm1, Pj, Pjp1))) j s = Inr s'"
      unfolding s Let_def prod.case u by (simp only: fdiv_nonzero [OF nz] bind_Inr) blast
  qed
  show ?thesis
  proof (cases "n = 0 \<or> n = 1")
    case True
    then show ?thesis by (auto simp: JacobiPoly_integral_def)
  next
    case False
    then have n2: "2 \<le> real n" by simp
    have u: "u32 (2 * n) = 2 * n" using nB by simp
    have nz0: "2 * 2 * (2 + alpha) * (2 * 2 + alpha - 2) \<noteq> 0"
      using assms(1) by simp
    have nz1: "(real (2 * n) + alpha - 1) * (real (2 * n) + alpha) \<noteq> 0"
      using assms(1) n2 by simp
    have nz2: "(real (2 * n) + alpha - 2) * (real (2 * n) + alpha) \<noteq> 0"
      using assms(1) n2 by simp
    have nz3: "(real (2 * n) + alpha - 2) * (real (2 * n) + alpha - 1) \<noteq> 0"
      using assms(1) n2 by simp
    define P2 where "P2 = (((2 * 2 + alpha - 1) * ((2 * 2 + alpha) * (2 * 2 + alpha - 2) * (2 * x - 1)
       + alpha * alpha) * ((2 + alpha) * x - 1) - 2 * (2 + alpha - 1) * (2 - 1) * (2 * 2 + alpha) * 1)
       / (2 * 2 * (2 + alpha) * (2 * 2 + alpha - 2)))"
    from loop [of "(1, (2 + alpha) * x - 1, P2)"] obtain a b c where
      l: "for_loop [2..<n] (\<lambda>j (Pjm2, Pjm1, Pj).
                    let ajp1P = real (u32 (2 * (j + 1))) * (real (u32 (j + 1)) + alpha)
                                  * (real (u32 (2 * (j + 1))) + alpha - 2);
                        bjp1P = real (u32 (2 * (j + 1))) + alpha - 1;
                        cjp1P = (real (u32 (2 * (j + 1))) + alpha)
                                  * (real (u32 (2 * (j + 1))) + alpha - 2);
                        djp1P = 2 * (real (u32 (j + 1)) + alpha - 1)
                                  * real (unsigned_sub (u32 (j + 1)) 1)
                                  * (real (u32 (2 * (j + 1))) + alpha)
                    in bind (fdiv (bjp1P * (cjp1P * (2 * x - 1) + alpha * alpha) * Pj
                                    - djp1P * Pjm1) ajp1P)
                         (\<lambda>Pjp1. Inr (Pjm1, Pj, Pjp1))) (1, (2 + alpha) * x - 1, P2) = Inr (a, b, c)"
      by (metis surj_pair)
    show ?thesis
      using False unfolding JacobiPoly_integral_def Let_def u
      by (simp only: if_False fdiv_nonzero [OF nz0] fdiv_nonzero [OF nz1] fdiv_nonzero [OF nz2]
            fdiv_nonzero [OF nz3] bind_Inr l [unfolded P2_def Let_def] prod.case) auto
  qed
qed

lemma JacobiPoly_integral_value:
  "0 \<le> alpha \<Longrightarrow> n < 2147483648 \<Longrightarrow>
     JacobiPoly_integral n alpha x = Inr (jacobi_integral_value n alpha x)"
  using JacobiPoly_integral_total [of alpha n x] by (auto simp: jacobi_integral_value_def)

section \<open>The rows of the triangle's shape functions\<close>

lemma fill6:
  assumes body: "\<And>i v1 v2 v3 v4 v5 v6. i < n \<Longrightarrow>
      body i (v1, v2, v3, v4, v5, v6) =
        bind (set_elem i (g1 i) v1) (\<lambda>w1.
        bind (set_elem i (g2 i) v2) (\<lambda>w2.
        bind (set_elem i (g3 i) v3) (\<lambda>w3.
        bind (set_elem i (g4 i) v4) (\<lambda>w4.
        bind (set_elem i (g5 i) v5) (\<lambda>w5.
        bind (set_elem i (g6 i) v6) (\<lambda>w6.
        Inr (w1, w2, w3, w4, w5, w6)))))))"
  shows "for_loop [0..<n] body
           (RowVectorXd n, RowVectorXd n, RowVectorXd n, RowVectorXd n, RowVectorXd n, RowVectorXd n)
         = Inr (partial_vector n n g1, partial_vector n n g2, partial_vector n n g3,
                partial_vector n n g4, partial_vector n n g5, partial_vector n n g6)"
proof -
  define I where "I k s \<longleftrightarrow> s = (partial_vector n k g1, partial_vector n k g2,
      partial_vector n k g3, partial_vector n k g4, partial_vector n k g5, partial_vector n k g6)"
    for k and s :: "vector \<times> vector \<times> vector \<times> vector \<times> vector \<times> vector"
  have "\<exists>s'. for_loop [0..<n] body
           (RowVectorXd n, RowVectorXd n, RowVectorXd n, RowVectorXd n, RowVectorXd n, RowVectorXd n)
         = Inr s' \<and> I n s'"
  proof (rule for_loop_invariant)
    show "I 0 (RowVectorXd n, RowVectorXd n, RowVectorXd n, RowVectorXd n, RowVectorXd n, RowVectorXd n)"
      by (simp add: I_def partial_vector_0)
  next
    fix i s
    assume i: "i < n" and "I i s"
    then have s: "s = (partial_vector n i g1, partial_vector n i g2,
      partial_vector n i g3, partial_vector n i g4, partial_vector n i g5, partial_vector n i g6)"
      by (simp add: I_def)
    have u: "g(i := g i) = g" for g :: "nat \<Rightarrow> real" by simp
    have "body i s = Inr (partial_vector n (Suc i) g1, partial_vector n (Suc i) g2,
      partial_vector n (Suc i) g3, partial_vector n (Suc i) g4, partial_vector n (Suc i) g5,
      partial_vector n (Suc i) g6)"
      unfolding s body [OF i] by (simp only: set_elem_partial_vector [OF i] bind_Inr u)
    then show "\<exists>s'. body i s = Inr s' \<and> I (Suc i) s'" by (simp add: I_def)
  qed
  then show ?thesis by (simp add: I_def)
qed

lemma tri_off_closed:
  "i \<le> p - 2 \<Longrightarrow> 2 * tri_off p i + (p - 2 - i) * (p - 1 - i) = (p - 2) * (p - 1)"
proof (induction i)
  case 0
  show ?case by simp
next
  case (Suc i)
  then have IH: "2 * tri_off p i + (p - 2 - i) * (p - 1 - i) = (p - 2) * (p - 1)" by simp
  from Suc.prems obtain q where q: "p - 2 - i = Suc q" by (cases "p - 2 - i") simp_all
  have e1: "p - 1 - i = Suc (Suc q)" using q by simp
  have e2: "p - 2 - Suc i = q" using q by simp
  have e3: "p - 1 - Suc i = Suc q" using q by simp
  show ?case using IH unfolding tri_off.simps q e1 e2 e3 by simp
qed

lemma tri_off_mono: "i \<le> k \<Longrightarrow> tri_off p i \<le> tri_off p k"
  by (induction k) (auto simp: le_Suc_eq)

lemma tri_off_total:
  assumes "3 \<le> p"
  shows "3 * p + tri_off p (p - 2) = (p + 1) * (p + 2) div 2"
proof -
  have "2 * tri_off p (p - 2) = (p - 2) * (p - 1)"
    using tri_off_closed [of "p - 2" p] by simp
  then have "tri_off p (p - 2) = (p - 2) * (p - 1) div 2" by simp
  moreover have "3 * p = 3 + 3 * (p - 1)" using assms by simp
  ultimately show ?thesis using tri_sum [OF assms] by simp
qed


lemma unaryExpr_id [simp]: "unaryExpr (\<lambda>x. Inr x) v = Inr v"
  using unaryExpr_Inr [of v "\<lambda>x. Inr x" "\<lambda>x. x"] by simp

lemma rows_are_Matrix: "rows_are (Matrix N n) N n {}"
  by (simp add: rows_are_def)

lemma rows_are_mono: "rows_are M N n R \<Longrightarrow> R' \<subseteq> R \<Longrightarrow> rows_are M N n R'"
  by (auto simp: rows_are_def)

lemma rows_areD:
  "rows_are M N n R \<Longrightarrow> (r, v) \<in> R \<Longrightarrow> r < N \<and> M ! r = map Some v \<and> length v = n"
  by (fastforce simp: rows_are_def)

lemma set_row_single:
  assumes pre: "rows_are M N n R" and r: "r < N" and len: "length v = n"
      and fresh: "r \<notin> fst ` R"
  shows "\<exists>M'. set_row r v M = Inr M' \<and> rows_are M' N n (insert (r, v) R)"
proof -
  have l: "length M = N" and w: "\<And>k. k < N \<Longrightarrow> length (M ! k) = n"
    using pre by (auto simp: rows_are_def)
  have "set_row r v M = Inr (M[r := map Some v])"
    using r len l w by (simp add: set_row_Inr)
  moreover have "rows_are (M[r := map Some v]) N n (insert (r, v) R)"
    unfolding rows_are_def
  proof (intro conjI allI impI ballI)
    show "length (M[r := map Some v]) = N" using l by simp
    show "length (M[r := map Some v] ! k) = n" if "k < N" for k
      using that l w len by (cases "k = r") simp_all
    show "case x of (k, u) \<Rightarrow> k < N \<and> M[r := map Some v] ! k = map Some u"
      if "x \<in> insert (r, v) R" for x
    proof (cases "x = (r, v)")
      case True
      then show ?thesis using r l by simp
    next
      case False
      with that have x: "x \<in> R" by simp
      obtain k u where ku: "x = (k, u)" by (cases x)
      have "k \<noteq> r" using fresh x ku by force
      moreover have "k < N \<and> M ! k = map Some u" using pre x ku by (auto simp: rows_are_def)
      ultimately show ?thesis using ku by simp
    qed
  qed
  ultimately show ?thesis by blast
qed

lemma set_row_stage:
  assumes pre: "rows_are M N n R"
      and body: "\<And>i M. i < m \<Longrightarrow> body i M = set_row (idx i) (v i) M"
      and len: "\<And>i. i < m \<Longrightarrow> length (v i) = n"
      and idx: "\<And>i. i < m \<Longrightarrow> idx i < N"
      and inj: "inj_on idx {..<m}"
      and fresh: "\<And>i. i < m \<Longrightarrow> idx i \<notin> fst ` R"
  shows "\<exists>M'. for_loop [0..<m] body M = Inr M' \<and>
           rows_are M' N n (R \<union> (\<lambda>i. (idx i, v i)) ` {..<m})"
proof -
  have l: "length M = N" and w: "\<And>k. k < length M \<Longrightarrow> length (M ! k) = n"
    using pre by (auto simp: rows_are_def)
  have idx': "\<And>i. i < m \<Longrightarrow> idx i < length M" using idx l by simp
  from set_row_loop [of m body idx v n M, OF body len idx' inj w]
  obtain M' where M': "for_loop [0..<m] body M = Inr M'" "length M' = length M"
      "\<forall>r < length M. length (M' ! r) = n"
      "\<forall>i<m. M' ! idx i = map Some (v i)"
      "\<forall>r. r \<notin> idx ` {..<m} \<longrightarrow> M' ! r = M ! r"
    by blast
  have "rows_are M' N n (R \<union> (\<lambda>i. (idx i, v i)) ` {..<m})"
    unfolding rows_are_def
  proof (intro conjI allI impI ballI)
    show "length M' = N" using M'(2) l by simp
    show "length (M' ! k) = n" if "k < N" for k using that M'(3) l by simp
    show "case x of (k, u) \<Rightarrow> k < N \<and> M' ! k = map Some u"
      if "x \<in> R \<union> (\<lambda>i. (idx i, v i)) ` {..<m}" for x
    proof (cases "x \<in> R")
      case True
      obtain k u where ku: "x = (k, u)" by (cases x)
      have "k \<notin> idx ` {..<m}" using fresh True ku by force
      then have "M' ! k = M ! k" using M'(5) by simp
      moreover have "k < N \<and> M ! k = map Some u" using pre True ku by (auto simp: rows_are_def)
      ultimately show ?thesis using ku by simp
    next
      case False
      with that obtain i where i: "i < m" "x = (idx i, v i)" by auto
      then show ?thesis using M'(4) idx by simp
    qed
  qed
  with M'(1) show ?thesis by blast
qed

lemma interior_stage:
  assumes pre: "rows_are M N n R"
      and p3: "3 \<le> p" and N: "N = (p + 1) * (p + 2) div 2"
      and R: "fst ` R \<subseteq> {..<3 * p}"
      and b: "\<And>i. i < p - 2 \<Longrightarrow> b i = p - 2 - i"
      and body: "\<And>i j idx M. i < p - 2 \<Longrightarrow> j < p - 2 - i \<Longrightarrow> idx < N \<Longrightarrow>
          rows_are M N n R \<Longrightarrow>
          \<exists>w. length w = n \<and>
              body i j (idx, M) = bind (set_row idx w M) (\<lambda>M'. Inr (idx + 1, M'))"
  shows "\<exists>s'. for_loop [0..<p - 2] (\<lambda>i. for_loop [0..<b i] (body i)) (3 * p, M) = Inr s' \<and>
           rows_are (snd s') N n R \<and>
           (\<forall>r. 3 * p \<le> r \<and> r < N \<longrightarrow> None \<notin> set (snd s' ! r))"
proof -
  define Inv where "Inv k s \<longleftrightarrow> fst s = k \<and> k \<le> N \<and> rows_are (snd s) N n R \<and>
      (\<forall>r. 3 * p \<le> r \<and> r < k \<longrightarrow> None \<notin> set (snd s ! r))" for k and s :: "nat \<times> matrix"
  have total: "3 * p + tri_off p (p - 2) = N"
    unfolding N by (rule tri_off_total [OF p3])
  have inner: "\<exists>s'. for_loop [0..<b i] (body i) s = Inr s' \<and> Inv (3 * p + tri_off p (Suc i)) s'"
    if i: "i < p - 2" and s: "Inv (3 * p + tri_off p i) s" for i s
  proof -
    have "\<exists>s'. for_loop [0..<p - 2 - i] (body i) s = Inr s' \<and>
            Inv (3 * p + tri_off p i + (p - 2 - i)) s'"
    proof (rule for_loop_invariant [where I = "\<lambda>j. Inv (3 * p + tri_off p i + j)"])
      show "Inv (3 * p + tri_off p i + 0) s" using s by simp
    next
      fix j and t :: "nat \<times> matrix"
      assume j: "j < p - 2 - i" and t: "Inv (3 * p + tri_off p i + j) t"
      obtain idx T where tt: "t = (idx, T)" by (cases t)
      from t tt have idx: "idx = 3 * p + tri_off p i + j" and T: "rows_are T N n R"
        and init: "\<forall>r. 3 * p \<le> r \<and> r < idx \<longrightarrow> None \<notin> set (T ! r)"
        by (simp_all add: Inv_def)
      have "tri_off p (Suc i) \<le> tri_off p (p - 2)" using i by (intro tri_off_mono) simp
      then have bound: "idx < N" using idx j total by simp
      from body [OF i j bound T] obtain w where w: "length w = n"
          "body i j (idx, T) = bind (set_row idx w T) (\<lambda>M'. Inr (idx + 1, M'))"
        by blast
      have fresh: "idx \<notin> fst ` R" using R idx by auto
      from set_row_single [OF T bound w(1) fresh] obtain T' where
        T': "set_row idx w T = Inr T'" "rows_are T' N n (insert (idx, w) R)"
        by blast
      have T'R: "rows_are T' N n R" using T'(2) by (rule rows_are_mono) auto
      have T'eq: "T' = T[idx := map Some w]"
        using T'(1) by (auto simp: set_row_def split: if_splits)
      have lenT: "length T = N" using T by (simp add: rows_are_def)
      have init': "None \<notin> set (T' ! r)" if "3 * p \<le> r" "r < idx + 1" for r
      proof (cases "r = idx")
        case True
        then show ?thesis using T'eq bound lenT by auto
      next
        case False
        with that have "r < idx" by simp
        then show ?thesis using init that(1) T'eq False by simp
      qed
      have "body i j t = Inr (idx + 1, T')" unfolding tt w(2) T'(1) by simp
      moreover have "Inv (3 * p + tri_off p i + Suc j) (idx + 1, T')"
        using idx bound T'R init' by (simp add: Inv_def)
      ultimately show "\<exists>s'. body i j t = Inr s' \<and> Inv (3 * p + tri_off p i + Suc j) s'"
        by blast
    qed
    then show ?thesis using b [OF i] by (simp add: add.assoc)
  qed
  have "\<exists>s'. for_loop [0..<p - 2] (\<lambda>i. for_loop [0..<b i] (body i)) (3 * p, M) = Inr s' \<and>
          Inv (3 * p + tri_off p (p - 2)) s'"
  proof (rule for_loop_invariant [where I = "\<lambda>i. Inv (3 * p + tri_off p i)"])
    have "3 * p \<le> N" using total by simp
    then show "Inv (3 * p + tri_off p 0) (3 * p, M)" using pre by (auto simp: Inv_def)
  next
    fix i and s :: "nat \<times> matrix"
    assume "i < p - 2" and "Inv (3 * p + tri_off p i) s"
    then show "\<exists>s'. for_loop [0..<b i] (body i) s = Inr s' \<and> Inv (3 * p + tri_off p (Suc i)) s'"
      by (rule inner)
  qed
  then show ?thesis unfolding total by (auto simp: Inv_def)
qed

lemma tria_edge_row_bounds:
  assumes "i < p - 1"
  shows "3 \<le> tria_edge_row p 0 orient i" "tria_edge_row p 0 orient i \<le> p + 1"
    "p + 2 \<le> tria_edge_row p 1 orient i" "tria_edge_row p 1 orient i \<le> 2 * p"
    "2 * p + 1 \<le> tria_edge_row p 2 orient i" "tria_edge_row p 2 orient i < 3 * p"
  using assms by (auto simp: tria_edge_row_def)

lemma tria_edge_row_inj: "inj_on (tria_edge_row p e orient) {..<p - 1}"
  by (auto simp: inj_on_def tria_edge_row_def)

lemma Tria_N_bounds:
  assumes "1 \<le> (p::nat)"
  shows "3 * p \<le> (p + 1) * (p + 2) div 2"
proof (cases "3 \<le> p")
  case True
  from tri_off_total [OF True] show ?thesis by simp
next
  case False
  with assms have "p = 1 \<or> p = 2" by arith
  then show ?thesis by auto
qed

lemma row_rows_are:
  "rows_are M N n R \<Longrightarrow> (r, v) \<in> R \<Longrightarrow> row M r = Inr v"
  by (auto simp: rows_are_def row_def)

lemma tria_edge_row_cover:
  assumes "3 \<le> r" "r < 3 * d"
  shows "(\<forall>orient. \<exists>i<d - 1. r = tria_edge_row d 0 orient i) \<or>
         (\<forall>orient. \<exists>i<d - 1. r = tria_edge_row d 1 orient i) \<or>
         (\<forall>orient. \<exists>i<d - 1. r = tria_edge_row d 2 orient i)"
proof -
  consider "r \<le> d + 1" | "d + 2 \<le> r" "r \<le> 2 * d" | "2 * d + 1 \<le> r" by arith
  then show ?thesis
  proof cases
    case 1
    have "\<exists>i<d - 1. r = tria_edge_row d 0 orient i" for orient
    proof (cases "orient = positive")
      case True
      then show ?thesis using 1 assms by (intro exI [of _ "r - 3"]) (auto simp: tria_edge_row_def)
    next
      case False
      then show ?thesis using 1 assms by (intro exI [of _ "d + 1 - r"]) (auto simp: tria_edge_row_def)
    qed
    then show ?thesis by blast
  next
    case 2
    have "\<exists>i<d - 1. r = tria_edge_row d 1 orient i" for orient
    proof (cases "orient = positive")
      case True
      then show ?thesis using 2 assms by (intro exI [of _ "r - d - 2"]) (auto simp: tria_edge_row_def)
    next
      case False
      then show ?thesis using 2 assms by (intro exI [of _ "2 * d - r"]) (auto simp: tria_edge_row_def)
    qed
    then show ?thesis by blast
  next
    case 3
    have "\<exists>i<d - 1. r = tria_edge_row d 2 orient i" for orient
    proof (cases "orient = positive")
      case True
      then show ?thesis using 3 assms by (intro exI [of _ "r - 2 * d - 1"]) (auto simp: tria_edge_row_def)
    next
      case False
      then show ?thesis using 3 assms by (intro exI [of _ "3 * d - 1 - r"]) (auto simp: tria_edge_row_def)
    qed
    then show ?thesis by blast
  qed
qed

lemma Tria_Eval_rows:
  assumes p: "1 \<le> tria_degree fe" and pB: "tria_degree fe \<le> 65534"
      and ro: "length (tria_rel_orient fe) = 3"
  shows "\<exists>M. Tria_EvalReferenceShapeFunctions fe (coords pts) = Inr M \<and>
     rows_are M (Tria_NumRefShapeFunctions fe) (length pts)
       ({(0, map bary1 pts), (1, map fst pts), (2, map snd pts)} \<union>
        (\<lambda>i. (tria_edge_row (tria_degree fe) 0 (tria_rel_orient fe ! 0) i,
              map (tria_edge_value 0 (tria_rel_orient fe ! 0) i) pts)) ` {..<tria_degree fe - 1} \<union>
        (\<lambda>i. (tria_edge_row (tria_degree fe) 1 (tria_rel_orient fe ! 1) i,
              map (tria_edge_value 1 (tria_rel_orient fe ! 1) i) pts)) ` {..<tria_degree fe - 1} \<union>
        (\<lambda>i. (tria_edge_row (tria_degree fe) 2 (tria_rel_orient fe ! 2) i,
              map (tria_edge_value 2 (tria_rel_orient fe ! 2) i) pts)) ` {..<tria_degree fe - 1}) \<and>
     (\<forall>r < Tria_NumRefShapeFunctions fe. None \<notin> set (M ! r))"
proof -
  define d where "d = tria_degree fe"
  define N where "N = Tria_NumRefShapeFunctions fe"
  define n where "n = length pts"
  define o0 where "o0 = tria_rel_orient fe ! 0"
  define o1 where "o1 = tria_rel_orient fe ! 1"
  define o2 where "o2 = tria_rel_orient fe ! 2"
  define R0 where "R0 = {(0::nat, map bary1 pts), (1, map fst pts), (2, map snd pts)}"
  define E0 where "E0 = (\<lambda>i. (tria_edge_row d 0 o0 i, map (tria_edge_value 0 o0 i) pts)) ` {..<d - 1}"
  define E1 where "E1 = (\<lambda>i. (tria_edge_row d 1 o1 i, map (tria_edge_value 1 o1 i) pts)) ` {..<d - 1}"
  define E2 where "E2 = (\<lambda>i. (tria_edge_row d 2 o2 i, map (tria_edge_value 2 o2 i) pts)) ` {..<d - 1}"
  have d1: "1 \<le> d" and dB: "d \<le> 65534" using p pB by (simp_all add: d_def)
  have Nd: "N = (d + 1) * (d + 2) div 2"
    using tria_count_small [OF dB] by (simp add: N_def d_def Tria_NumRefShapeFunctions_def)
  have NB: "N < 2147483648"
    using tria_count_small [OF dB] unfolding Nd by simp
  have N3: "3 * d \<le> N" unfolding Nd by (rule Tria_N_bounds [OF d1])
  have u1: "unsigned_sub d 1 = d - 1" using d1 by simp
  have i3: "int_expr (u32 (3 * d)) = Inr (3 * d)" using dB by simp
  have eb: "i + 2 \<le> 1073741824" if "i < d - 1" for i using that dB by simp
  note tev = Tria_edge_expr_value [OF eb]
  have pv: "partial_vector (length pts) (length pts) (\<lambda>i. f (pts ! i)) = map Some (map f pts)"
    for f :: "real \<times> real \<Rightarrow> real" by (rule partial_vector_full)
  have ro_at: "rel_orient_at (tria_rel_orient fe) 0 = Inr o0"
    "rel_orient_at (tria_rel_orient fe) 1 = Inr o1"
    "rel_orient_at (tria_rel_orient fe) 2 = Inr o2"
    using ro by (simp_all add: rel_orient_at_def o0_def o1_def o2_def)
  have fresh0: "tria_edge_row d 0 o0 i \<notin> fst ` R0" if "i < d - 1" for i
    using tria_edge_row_bounds(1) [of i d o0] that by (auto simp: R0_def)
  have fresh1: "tria_edge_row d 1 o1 i \<notin> fst ` (R0 \<union> E0)" if "i < d - 1" for i
  proof
    assume "tria_edge_row d 1 o1 i \<in> fst ` (R0 \<union> E0)"
    then consider "tria_edge_row d 1 o1 i \<le> 2"
      | k where "k < d - 1" "tria_edge_row d 1 o1 i = tria_edge_row d 0 o0 k"
      by (auto simp: R0_def E0_def)
    then show False
    proof cases
      case 1
      then show False using tria_edge_row_bounds(3) [of i d o1] that by simp
    next
      case 2
      then show False
        using tria_edge_row_bounds(3) [of i d o1] tria_edge_row_bounds(2) [of k d o0] that
        by simp
    qed
  qed
  have fresh2: "tria_edge_row d 2 o2 i \<notin> fst ` (R0 \<union> E0 \<union> E1)" if "i < d - 1" for i
  proof
    assume "tria_edge_row d 2 o2 i \<in> fst ` (R0 \<union> E0 \<union> E1)"
    then consider "tria_edge_row d 2 o2 i \<le> 2"
      | k where "k < d - 1" "tria_edge_row d 2 o2 i = tria_edge_row d 0 o0 k"
      | k where "k < d - 1" "tria_edge_row d 2 o2 i = tria_edge_row d 1 o1 k"
      by (auto simp: R0_def E0_def E1_def)
    then show False
    proof cases
      case 1
      then show False using tria_edge_row_bounds(5) [of i d o2] that by simp
    next
      case 2
      then show False
        using tria_edge_row_bounds(5) [of i d o2] tria_edge_row_bounds(2) [of k d o0] that
        by simp
    next
      case 3
      then show False
        using tria_edge_row_bounds(5) [of i d o2] tria_edge_row_bounds(4) [of k d o1] that
        by simp
    qed
  qed
  have below: "fst ` (R0 \<union> E0 \<union> E1 \<union> E2) \<subseteq> {..<3 * d}"
  proof
    fix r assume "r \<in> fst ` (R0 \<union> E0 \<union> E1 \<union> E2)"
    then consider "r \<le> 2"
      | k where "k < d - 1" "r = tria_edge_row d 0 o0 k"
      | k where "k < d - 1" "r = tria_edge_row d 1 o1 k"
      | k where "k < d - 1" "r = tria_edge_row d 2 o2 k"
      by (auto simp: R0_def E0_def E1_def E2_def)
    then show "r \<in> {..<3 * d}"
    proof cases
      case 1
      then show ?thesis using d1 by simp
    next
      case 2
      then show ?thesis using tria_edge_row_bounds(2) [of k d o0] by simp
    next
      case 3
      then show ?thesis using tria_edge_row_bounds(4) [of k d o1] by simp
    next
      case 4
      then show ?thesis using tria_edge_row_bounds(6) [of k d o2] by simp
    qed
  qed
  have edge_idx: "tria_edge_row d e orient i < N" if "i < d - 1" "e \<le> 2" for e orient i
  proof -
    have "tria_edge_row d e orient i < 3 * d"
      using that by (auto simp: tria_edge_row_def)
    then show ?thesis using N3 by simp
  qed
  have Nsmall: "N = 3 * d" if "\<not> 2 < d"
  proof -
    from that d1 have "d = 1 \<or> d = 2" by arith
    then show ?thesis unfolding Nd by auto
  qed
  have interior_body: "\<exists>w. length w = length pts \<and>
      bind (row M (if o1 = positive then u32 (d + 2 + i) else unsigned_sub (u32 (2 * d)) i))
        (\<lambda>edge. bind (unaryExpr (\<lambda>x. bind (int_expr (j + 1)) (\<lambda>n.
                               bind (int_expr (2 * i + 4)) (\<lambda>alpha.
                               JacobiPoly_integral n (real alpha) x)))
                       (map (\<lambda>p. 1 - fst p - snd p) pts))
        (\<lambda>jac. bind (cwise (*) edge jac)
        (\<lambda>r. bind (set_row idx r M) (\<lambda>result.
               bind (int_expr (idx + 1)) (\<lambda>idx. Inr (idx, result))))))
      = bind (set_row idx w M) (\<lambda>M'. Inr (idx + 1, M'))"
    if i: "i < d - 2" and j: "j < d - 2 - i" and idx: "idx < N"
      and M: "rows_are M N (length pts) (R0 \<union> E0 \<union> E1 \<union> E2)"
    for i j idx M
  proof -
    have e: "(if o1 = positive then u32 (d + 2 + i) else unsigned_sub (u32 (2 * d)) i)
        = tria_edge_row d 1 o1 i"
      using i dB by (simp add: tria_edge_row_def)
    have ij: "int_expr (j + 1) = Inr (j + 1)" "int_expr (2 * i + 4) = Inr (2 * i + 4)"
      "int_expr (idx + 1) = Inr (idx + 1)"
      using i j idx dB NB by simp_all
    have "(tria_edge_row d 1 o1 i, map (tria_edge_value 1 o1 i) pts) \<in> R0 \<union> E0 \<union> E1 \<union> E2"
      using i by (auto simp: E1_def)
    from row_rows_are [OF M this]
    have r: "row M (tria_edge_row d 1 o1 i) = Inr (map (tria_edge_value 1 o1 i) pts)" .
    have jB: "j + 1 < 2147483648" using i j dB by simp
    have jac: "unaryExpr (JacobiPoly_integral (j + 1) (real (2 * i + 4)))
                 (map (\<lambda>p. 1 - fst p - snd p) pts)
          = Inr (map (\<lambda>p. jacobi_integral_value (j + 1) (real (2 * i + 4)) (1 - fst p - snd p)) pts)"
    proof -
      have jv: "JacobiPoly_integral (j + 1) (real (2 * i + 4)) x =
          Inr (jacobi_integral_value (j + 1) (real (2 * i + 4)) x)" for x
        by (rule JacobiPoly_integral_value [OF _ jB]) simp
      have "unaryExpr (JacobiPoly_integral (j + 1) (real (2 * i + 4))) xs =
          Inr (map (jacobi_integral_value (j + 1) (real (2 * i + 4))) xs)" for xs
        by (rule unaryExpr_Inr) (rule jv)
      then show ?thesis by (simp only: map_map comp_def)
    qed
    show ?thesis
      unfolding ij bind_Inr e r jac cwise_map
      by (rule exI [of _ "map (\<lambda>p. tria_edge_value 1 o1 i p *
            jacobi_integral_value (j + 1) (real (2 * i + 4)) (1 - fst p - snd p)) pts"]) simp
  qed
  have main: "\<exists>M. Tria_EvalReferenceShapeFunctions fe (coords pts) = Inr M \<and>
     rows_are M N (length pts) (R0 \<union> E0 \<union> E1 \<union> E2) \<and>
     (\<forall>r. 3 * d \<le> r \<and> r < N \<longrightarrow> None \<notin> set (M ! r))"
    unfolding Tria_EvalReferenceShapeFunctions_def Let_def
    apply (simp only: row_coords cols_coords bind_Inr cwise_replicate_map cwise_map length_map)
    apply (subst fill6 [where
        ?g1.0 = "\<lambda>i. ratio (1 - fst (pts ! i) - snd (pts ! i)) (1 - fst (pts ! i) - snd (pts ! i) + fst (pts ! i))"
    and ?g2.0 = "\<lambda>i. ratio (fst (pts ! i)) (1 - fst (pts ! i) - snd (pts ! i) + fst (pts ! i))"
    and ?g3.0 = "\<lambda>i. ratio (fst (pts ! i)) (fst (pts ! i) + snd (pts ! i))"
    and ?g4.0 = "\<lambda>i. ratio (snd (pts ! i)) (fst (pts ! i) + snd (pts ! i))"
    and ?g5.0 = "\<lambda>i. ratio (snd (pts ! i)) (snd (pts ! i) + (1 - fst (pts ! i) - snd (pts ! i)))"
    and ?g6.0 = "\<lambda>i. ratio (1 - fst (pts ! i) - snd (pts ! i)) (snd (pts ! i) + (1 - fst (pts ! i) - snd (pts ! i)))"])
     apply (simp only: prod.case elem_Inr length_map nth_map guarded_ratio_eq bind_Inr)
    apply (simp only: prod.case bind_Inr unaryExpr_id ro_at u1
        pv [of "\<lambda>p. ratio (1 - fst p - snd p) (1 - fst p - snd p + fst p)"]
        pv [of "\<lambda>p. ratio (fst p) (1 - fst p - snd p + fst p)"]
        pv [of "\<lambda>p. ratio (fst p) (fst p + snd p)"]
        pv [of "\<lambda>p. ratio (snd p) (fst p + snd p)"]
        pv [of "\<lambda>p. ratio (snd p) (snd p + (1 - fst p - snd p))"]
        pv [of "\<lambda>p. ratio (1 - fst p - snd p) (snd p + (1 - fst p - snd p))"]
        N_def [symmetric] d_def [symmetric])
    apply (rule bind_ex [OF set_row_single [OF rows_are_Matrix]])
       apply (use N3 d1 in simp)
      apply simp
     apply simp
    apply (rule bind_ex [OF set_row_single], assumption)
       apply (use N3 d1 in simp)
      apply simp
     apply simp
    apply (rule bind_ex [OF set_row_single], assumption)
       apply (use N3 d1 in simp)
      apply simp
     apply simp
    apply (rule bind_ex [OF set_row_stage [where R = R0 and idx = "tria_edge_row d 0 o0"
            and v = "\<lambda>i. map (tria_edge_value 0 o0 i) pts"]])
          apply (erule rows_are_mono, simp add: R0_def bary1_def [abs_def])
         apply (simp only: tev)
         apply (use dB in \<open>simp add: tria_edge_row_def tria_edge_value_def [abs_def] bary1_def\<close>)
        apply simp
       apply (rule edge_idx, assumption, simp)
      apply (rule tria_edge_row_inj)
     apply (erule fresh0)
    apply (rule bind_ex [OF set_row_stage [where R = "R0 \<union> E0" and idx = "tria_edge_row d 1 o1"
            and v = "\<lambda>i. map (tria_edge_value 1 o1 i) pts"]])
          apply (erule rows_are_mono, simp add: E0_def)
         apply (simp only: tev)
         apply (use dB in \<open>simp add: tria_edge_row_def tria_edge_value_def [abs_def] bary1_def\<close>)
        apply simp
       apply (rule edge_idx, assumption, simp)
      apply (rule tria_edge_row_inj)
     apply (erule fresh1)
    apply (rule bind_ex [OF set_row_stage [where R = "R0 \<union> E0 \<union> E1" and idx = "tria_edge_row d 2 o2"
            and v = "\<lambda>i. map (tria_edge_value 2 o2 i) pts"]])
          apply (erule rows_are_mono, simp add: E1_def)
         apply (simp only: tev)
         apply (use dB in \<open>simp add: tria_edge_row_def tria_edge_value_def [abs_def] bary1_def\<close>)
        apply simp
       apply (rule edge_idx, assumption, simp)
      apply (rule tria_edge_row_inj)
     apply (erule fresh2)
    apply (cases "2 < d")
     apply (simp only: if_True)
     apply (subst unsigned_sub_le [of 2 d], simp)
     apply (simp only: i3 bind_Inr)
     apply (rule bind_ex [OF interior_stage [where p = d
            and b = "\<lambda>i. unsigned_sub (unsigned_sub d i) 2"
            and R = "R0 \<union> E0 \<union> E1 \<union> E2" and N = N and n = "length pts"]])
           apply (erule rows_are_mono, simp add: E2_def)
          apply simp
         apply (rule Nd)
        apply (rule below)
       apply simp
      apply (simp only: prod.case)
      apply (rule interior_body; assumption)
     apply (auto simp: split_def)[1]
    apply (simp only: if_False)
    apply (rule exI, intro conjI, rule refl)
     apply (erule rows_are_mono, simp add: E2_def)
    apply (use Nsmall in auto)
    done
  from main obtain M where M: "Tria_EvalReferenceShapeFunctions fe (coords pts) = Inr M"
      "rows_are M N (length pts) (R0 \<union> E0 \<union> E1 \<union> E2)"
      "\<forall>r. 3 * d \<le> r \<and> r < N \<longrightarrow> None \<notin> set (M ! r)"
    by blast
  have init: "None \<notin> set (M ! r)" if "r < N" for r
  proof (cases "3 * d \<le> r")
    case True
    then show ?thesis using M(3) that by simp
  next
    case False
    have "\<exists>v. (r, v) \<in> R0 \<union> E0 \<union> E1 \<union> E2"
    proof (cases "r \<le> 2")
      case True
      then have "r = 0 \<or> r = 1 \<or> r = 2" by arith
      then show ?thesis by (auto simp: R0_def)
    next
      case r3: False
      from tria_edge_row_cover [of r d] r3 False
      consider i where "i < d - 1" "r = tria_edge_row d 0 o0 i"
        | i where "i < d - 1" "r = tria_edge_row d 1 o1 i"
        | i where "i < d - 1" "r = tria_edge_row d 2 o2 i"
        by (metis not_le_imp_less not_less_eq_eq numeral_2_eq_2 numeral_3_eq_3)
      then show ?thesis
      proof cases
        case 1
        then show ?thesis by (auto simp: E0_def)
      next
        case 2
        then show ?thesis by (auto simp: E1_def)
      next
        case 3
        then show ?thesis by (auto simp: E2_def)
      qed
    qed
    then obtain v where "(r, v) \<in> R0 \<union> E0 \<union> E1 \<union> E2" by blast
    from rows_areD [OF M(2) this] have "M ! r = map Some v" by simp
    then show ?thesis by auto
  qed
  show ?thesis
    using M(1) M(2) init
    unfolding R0_def E0_def E1_def E2_def N_def d_def o0_def o1_def o2_def
    by (intro exI [of _ M]) simp
qed

section \<open>The rows of the quadrilateral's shape functions\<close>

lemma Segment_Eval_row:
  assumes "1 \<le> segment_degree fe" and "segment_degree fe \<le> 1073741824"
  shows "\<exists>S. Segment_EvalReferenceShapeFunctions fe [map Some (map f pts)] = Inr S \<and>
           (\<forall>r \<le> segment_degree fe. row S r = Inr (map (\<lambda>p. segment_shape r (f p)) pts))"
proof -
  from Segment_Eval_rows [OF assms, of "map f pts"] obtain S where
    S: "Segment_EvalReferenceShapeFunctions fe [map Some (map f pts)] = Inr S"
       "length S = segment_degree fe + 1"
       "S ! 0 = map Some (map (\<lambda>x. 1 - x) (map f pts))" "S ! 1 = map Some (map f pts)"
       "\<forall>i. i + 2 \<le> segment_degree fe \<longrightarrow>
          S ! (i + 2) = map Some (map (integrated_legendre (i + 2)) (map f pts))"
    by blast
  have "row S r = Inr (map (\<lambda>p. segment_shape r (f p)) pts)" if r: "r \<le> segment_degree fe" for r
  proof -
    consider "r = 0" | "r = 1" | i where "r = i + 2"
      by (metis One_nat_def add_2_eq_Suc' not0_implies_Suc)
    then show ?thesis
    proof cases
      case 1
      then show ?thesis using S(2,3) by (simp add: row_def segment_shape_def comp_def)
    next
      case 2
      then show ?thesis using S(2,4) assms(1) by (simp add: row_def segment_shape_def comp_def)
    next
      case 3
      then have "S ! r = map Some (map (integrated_legendre r) (map f pts))"
        using S(5) r by simp
      then show ?thesis using S(2) r 3 by (simp add: row_def segment_shape_def comp_def)
    qed
  qed
  with S(1) show ?thesis by blast
qed

lemma row_product_value:
  "r < 2147483648 \<Longrightarrow> s < 2147483648 \<Longrightarrow>
   row A r = Inr (map f pts) \<Longrightarrow> row B s = Inr (map g pts) \<Longrightarrow>
   row_product A r B s = Inr (map (\<lambda>p. f p * g p) pts)"
  by (simp add: row_product_def cwise_map)

lemma quad_count_small:
  assumes "d \<le> (65534::nat)"
  shows "(d + 1) * (d + 1) < 4294967296"
proof -
  have "(d + 1) * (d + 1) \<le> 65535 * 65535"
    using assms by (intro mult_mono) simp_all
  then show ?thesis by simp
qed

lemma quad_edge_row_bounds:
  assumes "i < d - 1"
  shows "4 \<le> quad_edge_row d 0 orient i" "quad_edge_row d 0 orient i \<le> d + 2"
    "d + 3 \<le> quad_edge_row d 1 orient i" "quad_edge_row d 1 orient i \<le> 2 * d + 1"
    "2 * d + 2 \<le> quad_edge_row d 2 orient i" "quad_edge_row d 2 orient i \<le> 3 * d"
    "3 * d + 1 \<le> quad_edge_row d 3 orient i" "quad_edge_row d 3 orient i < 4 * d"
  using assms by (auto simp: quad_edge_row_def)

lemma quad_edge_row_inj: "inj_on (quad_edge_row d e orient) {..<d - 1}"
  by (auto simp: inj_on_def quad_edge_row_def)

lemma quad_interior_index:
  assumes "i < d - 1" "j < d - (1::nat)"
  shows "4 * d + (d - 1) * i + j < (d + 1) * (d + 1)" "4 * d \<le> 4 * d + (d - 1) * i + j"
proof -
  from assms obtain q where q: "d = Suc q" by (cases d) simp_all
  have "q * i + j < q * i + q" using assms q by simp
  also have "\<dots> = q * Suc i" by simp
  also have "\<dots> \<le> q * q" using assms q by (intro mult_le_mono2) simp
  finally have "q * i + j < q * q" .
  moreover have "(d + 1) * (d + 1) = 4 * d + q * q" using q by (simp add: algebra_simps)
  ultimately show "4 * d + (d - 1) * i + j < (d + 1) * (d + 1)" using q by simp
  show "4 * d \<le> 4 * d + (d - 1) * i + j" by simp
qed


lemma Quad_N_bounds:
  assumes "1 \<le> (d::nat)"
  shows "4 * d \<le> (d + 1) * (d + 1)"
proof -
  from assms obtain q where q: "d = Suc q" by (cases d) simp_all
  have "(d + 1) * (d + 1) = 4 * d + q * q" using q by (simp add: algebra_simps)
  then show ?thesis by simp
qed

lemma quad_interior_stage:
  assumes pre: "rows_are M N n R" and N: "N = (d + 1) * (d + 1)"
      and R: "fst ` R \<subseteq> {..<4 * d}"
      and body: "\<And>i j M. i < d - 1 \<Longrightarrow> j < d - 1 \<Longrightarrow>
                   body i j M = set_row (4 * d + (d - 1) * i + j) (v i j) M"
      and len: "\<And>i j. i < d - 1 \<Longrightarrow> j < d - 1 \<Longrightarrow> length (v i j) = n"
  shows "\<exists>M'. for_loop [0..<d - 1] (\<lambda>i. for_loop [0..<d - 1] (body i)) M = Inr M' \<and>
           rows_are M' N n R"
proof (rule for_loop_invariant [where I = "\<lambda>i M. rows_are M N n R"])
  show "rows_are M N n R" by (rule pre)
next
  fix i T
  assume i: "i < d - 1" and T: "rows_are T N n R"
  have "\<exists>M'. for_loop [0..<d - 1] (body i) T = Inr M' \<and>
           rows_are M' N n (R \<union> (\<lambda>j. (4 * d + (d - 1) * i + j, v i j)) ` {..<d - 1})"
  proof (rule set_row_stage [OF T])
    show "body i j M = set_row (4 * d + (d - 1) * i + j) (v i j) M" if "j < d - 1" for j M
      using i that by (rule body)
    show "length (v i j) = n" if "j < d - 1" for j using i that by (rule len)
    show "4 * d + (d - 1) * i + j < N" if "j < d - 1" for j
      unfolding N using i that by (rule quad_interior_index)
    show "inj_on (\<lambda>j. 4 * d + (d - 1) * i + j) {..<d - 1}" by (simp add: inj_on_def)
    show "4 * d + (d - 1) * i + j \<notin> fst ` R" if "j < d - 1" for j using R by auto
  qed
  then obtain M' where "for_loop [0..<d - 1] (body i) T = Inr M'"
    "rows_are M' N n (R \<union> (\<lambda>j. (4 * d + (d - 1) * i + j, v i j)) ` {..<d - 1})" by blast
  moreover from this(2) have "rows_are M' N n R" by (rule rows_are_mono) simp
  ultimately show "\<exists>s'. for_loop [0..<d - 1] (body i) T = Inr s' \<and> rows_are s' N n R" by blast
qed

lemma Quad_Eval_rows:
  assumes dg: "1 \<le> quad_degree fe" and dgB: "quad_degree fe \<le> 65534"
      and fe1d: "segment_degree (quad_fe1d fe) = quad_degree fe"
      and ro: "length (quad_rel_orient fe) = 4"
  shows "\<exists>M. Quad_EvalReferenceShapeFunctions fe (coords pts) = Inr M \<and>
     rows_are M (Quad_NumRefShapeFunctions fe) (length pts)
       ((\<lambda>i. (quad_edge_row (quad_degree fe) 0 (quad_rel_orient fe ! 0) i,
              map (quad_edge_value 0 (quad_rel_orient fe ! 0) i) pts)) ` {..<quad_degree fe - 1} \<union>
        (\<lambda>i. (quad_edge_row (quad_degree fe) 1 (quad_rel_orient fe ! 1) i,
              map (quad_edge_value 1 (quad_rel_orient fe ! 1) i) pts)) ` {..<quad_degree fe - 1} \<union>
        (\<lambda>i. (quad_edge_row (quad_degree fe) 2 (quad_rel_orient fe ! 2) i,
              map (quad_edge_value 2 (quad_rel_orient fe ! 2) i) pts)) ` {..<quad_degree fe - 1} \<union>
        (\<lambda>i. (quad_edge_row (quad_degree fe) 3 (quad_rel_orient fe ! 3) i,
              map (quad_edge_value 3 (quad_rel_orient fe ! 3) i) pts)) ` {..<quad_degree fe - 1})"
proof -
  define d where "d = quad_degree fe"
  define N where "N = Quad_NumRefShapeFunctions fe"
  define o0 where "o0 = quad_rel_orient fe ! 0"
  define o1 where "o1 = quad_rel_orient fe ! 1"
  define o2 where "o2 = quad_rel_orient fe ! 2"
  define o3 where "o3 = quad_rel_orient fe ! 3"
  define V where "V = {(0::nat, map (\<lambda>p. segment_shape 0 (fst p) * segment_shape 0 (snd p)) pts),
      (1, map (\<lambda>p. segment_shape 1 (fst p) * segment_shape 0 (snd p)) pts),
      (2, map (\<lambda>p. segment_shape 1 (fst p) * segment_shape 1 (snd p)) pts),
      (3, map (\<lambda>p. segment_shape 0 (fst p) * segment_shape 1 (snd p)) pts)}"
  define E0 where "E0 = (\<lambda>i. (quad_edge_row d 0 o0 i, map (quad_edge_value 0 o0 i) pts)) ` {..<d - 1}"
  define E1 where "E1 = (\<lambda>i. (quad_edge_row d 1 o1 i, map (quad_edge_value 1 o1 i) pts)) ` {..<d - 1}"
  define E2 where "E2 = (\<lambda>i. (quad_edge_row d 2 o2 i, map (quad_edge_value 2 o2 i) pts)) ` {..<d - 1}"
  define E3 where "E3 = (\<lambda>i. (quad_edge_row d 3 o3 i, map (quad_edge_value 3 o3 i) pts)) ` {..<d - 1}"
  have d1: "1 \<le> d" and dB: "d \<le> 65534" using dg dgB by (simp_all add: d_def)
  have sd: "1 \<le> segment_degree (quad_fe1d fe)" using dg fe1d by simp
  have sdB: "segment_degree (quad_fe1d fe) \<le> 1073741824" using dgB fe1d by simp
  have Nd: "N = (d + 1) * (d + 1)"
    using quad_count_small [OF dB] by (simp add: N_def d_def Quad_NumRefShapeFunctions_def)
  have qi: "u32 (4 * d + (d - 1) * i + j) = 4 * d + (d - 1) * i + j"
    if "i < d - 1" "j < d - 1" for i j
    using quad_interior_index(1) [OF that] quad_count_small [OF dB] by simp
  have N4: "4 * d \<le> N" unfolding Nd by (rule Quad_N_bounds [OF d1])
  have u1: "unsigned_sub d 1 = d - 1" using d1 by simp
  have ro_at: "rel_orient_at (quad_rel_orient fe) 0 = Inr o0"
    "rel_orient_at (quad_rel_orient fe) 1 = Inr o1"
    "rel_orient_at (quad_rel_orient fe) 2 = Inr o2"
    "rel_orient_at (quad_rel_orient fe) 3 = Inr o3"
    using ro by (simp_all add: rel_orient_at_def o0_def o1_def o2_def o3_def)
  from Segment_Eval_row [OF sd sdB, of fst pts] obtain Sx where
    Sx: "Segment_EvalReferenceShapeFunctions (quad_fe1d fe) [map Some (map fst pts)] = Inr Sx"
    and rSx: "\<And>r. r \<le> d \<Longrightarrow> row Sx r = Inr (map (\<lambda>p. segment_shape r (fst p)) pts)"
    unfolding fe1d d_def by blast
  from Segment_Eval_row [OF sd sdB, of snd pts] obtain Sy where
    Sy: "Segment_EvalReferenceShapeFunctions (quad_fe1d fe) [map Some (map snd pts)] = Inr Sy"
    and rSy: "\<And>r. r \<le> d \<Longrightarrow> row Sy r = Inr (map (\<lambda>p. segment_shape r (snd p)) pts)"
    unfolding fe1d d_def by blast
  from Segment_Eval_row [OF sd sdB, of "\<lambda>p. 1 - fst p" pts] obtain Sfx where
    Sfx: "Segment_EvalReferenceShapeFunctions (quad_fe1d fe) [map Some (map (\<lambda>p. 1 - fst p) pts)]
          = Inr Sfx"
    and rSfx: "\<And>r. r \<le> d \<Longrightarrow> row Sfx r = Inr (map (\<lambda>p. segment_shape r (1 - fst p)) pts)"
    unfolding fe1d d_def by blast
  from Segment_Eval_row [OF sd sdB, of "\<lambda>p. 1 - snd p" pts] obtain Sfy where
    Sfy: "Segment_EvalReferenceShapeFunctions (quad_fe1d fe) [map Some (map (\<lambda>p. 1 - snd p) pts)]
          = Inr Sfy"
    and rSfy: "\<And>r. r \<le> d \<Longrightarrow> row Sfy r = Inr (map (\<lambda>p. segment_shape r (1 - snd p)) pts)"
    unfolding fe1d d_def by blast
  have rp: "row_product Sx 0 Sy 0 = Inr (map (\<lambda>p. segment_shape 0 (fst p) * segment_shape 0 (snd p)) pts)"
    "row_product Sx 1 Sy 0 = Inr (map (\<lambda>p. segment_shape 1 (fst p) * segment_shape 0 (snd p)) pts)"
    "row_product Sx 1 Sy 1 = Inr (map (\<lambda>p. segment_shape 1 (fst p) * segment_shape 1 (snd p)) pts)"
    "row_product Sx 0 Sy 1 = Inr (map (\<lambda>p. segment_shape 0 (fst p) * segment_shape 1 (snd p)) pts)"
    using d1 by (simp_all add: row_product_value rSx rSy)
  have fresh0: "quad_edge_row d 0 o0 i \<notin> fst ` V" if "i < d - 1" for i
    using quad_edge_row_bounds(1) [OF that, of o0] by (auto simp: V_def)
  have fresh1: "quad_edge_row d 1 o1 i \<notin> fst ` (V \<union> E0)" if "i < d - 1" for i
  proof
    assume "quad_edge_row d 1 o1 i \<in> fst ` (V \<union> E0)"
    then consider "quad_edge_row d 1 o1 i \<le> 3"
      | k where "k < d - 1" "quad_edge_row d 1 o1 i = quad_edge_row d 0 o0 k"
      by (auto simp: V_def E0_def)
    then show False
    proof cases
      case 1
      then show False using quad_edge_row_bounds(3) [OF that, of o1] d1 by simp
    next
      case 2
      then show False
        using quad_edge_row_bounds(3) [OF that, of o1] quad_edge_row_bounds(2) [of k d o0] by simp
    qed
  qed
  have fresh2: "quad_edge_row d 2 o2 i \<notin> fst ` (V \<union> E0 \<union> E1)" if "i < d - 1" for i
  proof
    assume "quad_edge_row d 2 o2 i \<in> fst ` (V \<union> E0 \<union> E1)"
    then consider "quad_edge_row d 2 o2 i \<le> 3"
      | k where "k < d - 1" "quad_edge_row d 2 o2 i = quad_edge_row d 0 o0 k"
      | k where "k < d - 1" "quad_edge_row d 2 o2 i = quad_edge_row d 1 o1 k"
      by (auto simp: V_def E0_def E1_def)
    then show False
    proof cases
      case 1
      then show False using quad_edge_row_bounds(5) [OF that, of o2] d1 by simp
    next
      case 2
      then show False
        using quad_edge_row_bounds(5) [OF that, of o2] quad_edge_row_bounds(2) [of k d o0] by simp
    next
      case 3
      then show False
        using quad_edge_row_bounds(5) [OF that, of o2] quad_edge_row_bounds(4) [of k d o1] by simp
    qed
  qed
  have fresh3: "quad_edge_row d 3 o3 i \<notin> fst ` (V \<union> E0 \<union> E1 \<union> E2)" if "i < d - 1" for i
  proof
    assume "quad_edge_row d 3 o3 i \<in> fst ` (V \<union> E0 \<union> E1 \<union> E2)"
    then consider "quad_edge_row d 3 o3 i \<le> 3"
      | k where "k < d - 1" "quad_edge_row d 3 o3 i = quad_edge_row d 0 o0 k"
      | k where "k < d - 1" "quad_edge_row d 3 o3 i = quad_edge_row d 1 o1 k"
      | k where "k < d - 1" "quad_edge_row d 3 o3 i = quad_edge_row d 2 o2 k"
      by (auto simp: V_def E0_def E1_def E2_def)
    then show False
    proof cases
      case 1
      then show False using quad_edge_row_bounds(7) [OF that, of o3] d1 by simp
    next
      case 2
      then show False
        using quad_edge_row_bounds(7) [OF that, of o3] quad_edge_row_bounds(2) [of k d o0] by simp
    next
      case 3
      then show False
        using quad_edge_row_bounds(7) [OF that, of o3] quad_edge_row_bounds(4) [of k d o1] by simp
    next
      case 4
      then show False
        using quad_edge_row_bounds(7) [OF that, of o3] quad_edge_row_bounds(6) [of k d o2] by simp
    qed
  qed
  have below: "fst ` (V \<union> E0 \<union> E1 \<union> E2 \<union> E3) \<subseteq> {..<4 * d}"
  proof
    fix r assume "r \<in> fst ` (V \<union> E0 \<union> E1 \<union> E2 \<union> E3)"
    then consider "r \<le> 3"
      | k where "k < d - 1" "r = quad_edge_row d 0 o0 k"
      | k where "k < d - 1" "r = quad_edge_row d 1 o1 k"
      | k where "k < d - 1" "r = quad_edge_row d 2 o2 k"
      | k where "k < d - 1" "r = quad_edge_row d 3 o3 k"
      by (auto simp: V_def E0_def E1_def E2_def E3_def)
    then show "r \<in> {..<4 * d}"
    proof cases
      case 1
      then show ?thesis using d1 by simp
    next
      case 2
      then show ?thesis using quad_edge_row_bounds(2) [of k d o0] by simp
    next
      case 3
      then show ?thesis using quad_edge_row_bounds(4) [of k d o1] by simp
    next
      case 4
      then show ?thesis using quad_edge_row_bounds(6) [of k d o2] by simp
    next
      case 5
      then show ?thesis using quad_edge_row_bounds(8) [of k d o3] by simp
    qed
  qed
  have edge_idx: "quad_edge_row d e orient i < N" if "i < d - 1" "e \<le> 3" for e orient i
  proof -
    have "quad_edge_row d e orient i < 4 * d"
      using that by (auto simp: quad_edge_row_def)
    then show ?thesis using N4 by simp
  qed
  have main: "\<exists>M. Quad_EvalReferenceShapeFunctions fe (coords pts) = Inr M \<and>
     rows_are M N (length pts) (V \<union> E0 \<union> E1 \<union> E2 \<union> E3)"
    unfolding Quad_EvalReferenceShapeFunctions_def Let_def
    apply (simp only: row_coords cols_coords bind_Inr cwise_replicate_map length_map
        Sx Sy Sfx Sfy rp ro_at N_def [symmetric] d_def [symmetric] u1)
    apply (rule bind_ex [OF set_row_single [OF rows_are_Matrix]])
       apply (use N4 d1 in simp)
      apply simp
     apply simp
    apply (rule bind_ex [OF set_row_single], assumption)
       apply (use N4 d1 in simp)
      apply simp
     apply simp
    apply (rule bind_ex [OF set_row_single], assumption)
       apply (use N4 d1 in simp)
      apply simp
     apply simp
    apply (rule bind_ex [OF set_row_single], assumption)
       apply (use N4 d1 in simp)
      apply simp
     apply simp
    apply (rule bind_ex [OF set_row_stage [where R = "V" and idx = "quad_edge_row d 0 o0"
            and v = "\<lambda>i. map (quad_edge_value 0 o0 i) pts"]])
          apply (erule rows_are_mono, simp add: V_def)
         apply (use dB in \<open>simp add: row_product_def rSx rSy rSfx rSfy cwise_map quad_edge_row_def
            quad_edge_value_def [abs_def]\<close>)
        apply simp
       apply (rule edge_idx, assumption, simp)
      apply (rule quad_edge_row_inj)
     apply (erule fresh0)
    apply (rule bind_ex [OF set_row_stage [where R = "V \<union> E0" and idx = "quad_edge_row d 1 o1"
            and v = "\<lambda>i. map (quad_edge_value 1 o1 i) pts"]])
          apply (erule rows_are_mono, simp add: E0_def)
         apply (use dB in \<open>simp add: row_product_def rSx rSy rSfx rSfy cwise_map quad_edge_row_def
            quad_edge_value_def [abs_def]\<close>)
        apply simp
       apply (rule edge_idx, assumption, simp)
      apply (rule quad_edge_row_inj)
     apply (erule fresh1)
    apply (rule bind_ex [OF set_row_stage [where R = "V \<union> E0 \<union> E1" and idx = "quad_edge_row d 2 o2"
            and v = "\<lambda>i. map (quad_edge_value 2 o2 i) pts"]])
          apply (erule rows_are_mono, simp add: E1_def)
         apply (use dB in \<open>simp add: row_product_def rSx rSy rSfx rSfy cwise_map quad_edge_row_def
            quad_edge_value_def [abs_def]\<close>)
        apply simp
       apply (rule edge_idx, assumption, simp)
      apply (rule quad_edge_row_inj)
     apply (erule fresh2)
    apply (rule bind_ex [OF set_row_stage [where R = "V \<union> E0 \<union> E1 \<union> E2" and idx = "quad_edge_row d 3 o3"
            and v = "\<lambda>i. map (quad_edge_value 3 o3 i) pts"]])
          apply (erule rows_are_mono, simp add: E2_def)
         apply (use dB in \<open>simp add: row_product_def rSx rSy rSfx rSfy cwise_map quad_edge_row_def
            quad_edge_value_def [abs_def]\<close>)
        apply simp
       apply (rule edge_idx, assumption, simp)
      apply (rule quad_edge_row_inj)
     apply (erule fresh3)
    apply (rule quad_interior_stage [where R = "V \<union> E0 \<union> E1 \<union> E2 \<union> E3"
          and v = "\<lambda>i j. map (\<lambda>p. segment_shape (j + 2) (fst p) * segment_shape (i + 2) (snd p)) pts"])
        apply (erule rows_are_mono, simp add: E3_def)
       apply (rule Nd)
      apply (rule below)
     apply (simp only: qi)
     apply (use dB in \<open>simp add: row_product_def rSx rSy cwise_map\<close>)
    apply simp
    done
  from main show ?thesis
    unfolding E0_def E1_def E2_def E3_def N_def d_def o0_def o1_def o2_def o3_def
    by (auto elim: rows_are_mono)
qed

section \<open>Orientation symmetry of the edge functions\<close>

lemma Tria_Eval_edge_row:
  assumes "i < tria_degree fe - 1" and "tria_degree fe \<le> 65534"
      and "length (tria_rel_orient fe) = 3" and "e \<le> 2"
  shows "\<exists>M. Tria_EvalReferenceShapeFunctions fe (coords pts) = Inr M \<and>
           M ! tria_edge_row (tria_degree fe) e (tria_rel_orient fe ! e) i =
             map Some (map (tria_edge_value e (tria_rel_orient fe ! e) i) pts)"
proof -
  have p: "1 \<le> tria_degree fe" using assms(1) by simp
  from Tria_Eval_rows [OF p assms(2,3), of pts] obtain M where
    M: "Tria_EvalReferenceShapeFunctions fe (coords pts) = Inr M"
    and R: "rows_are M (Tria_NumRefShapeFunctions fe) (length pts)
       ({(0, map bary1 pts), (1, map fst pts), (2, map snd pts)} \<union>
        (\<lambda>i. (tria_edge_row (tria_degree fe) 0 (tria_rel_orient fe ! 0) i,
              map (tria_edge_value 0 (tria_rel_orient fe ! 0) i) pts)) ` {..<tria_degree fe - 1} \<union>
        (\<lambda>i. (tria_edge_row (tria_degree fe) 1 (tria_rel_orient fe ! 1) i,
              map (tria_edge_value 1 (tria_rel_orient fe ! 1) i) pts)) ` {..<tria_degree fe - 1} \<union>
        (\<lambda>i. (tria_edge_row (tria_degree fe) 2 (tria_rel_orient fe ! 2) i,
              map (tria_edge_value 2 (tria_rel_orient fe ! 2) i) pts)) ` {..<tria_degree fe - 1})"
    by blast
  from assms(4) have "e = 0 \<or> e = 1 \<or> e = 2" by arith
  then have "(tria_edge_row (tria_degree fe) e (tria_rel_orient fe ! e) i,
       map (tria_edge_value e (tria_rel_orient fe ! e) i) pts) \<in>
       ({(0, map bary1 pts), (1, map fst pts), (2, map snd pts)} \<union>
        (\<lambda>i. (tria_edge_row (tria_degree fe) 0 (tria_rel_orient fe ! 0) i,
              map (tria_edge_value 0 (tria_rel_orient fe ! 0) i) pts)) ` {..<tria_degree fe - 1} \<union>
        (\<lambda>i. (tria_edge_row (tria_degree fe) 1 (tria_rel_orient fe ! 1) i,
              map (tria_edge_value 1 (tria_rel_orient fe ! 1) i) pts)) ` {..<tria_degree fe - 1} \<union>
        (\<lambda>i. (tria_edge_row (tria_degree fe) 2 (tria_rel_orient fe ! 2) i,
              map (tria_edge_value 2 (tria_rel_orient fe ! 2) i) pts)) ` {..<tria_degree fe - 1})"
    using assms(1) by auto
  from rows_areD [OF R this] M show ?thesis by blast
qed

lemma Quad_Eval_edge_row:
  assumes "i < quad_degree fe - 1" and "quad_degree fe \<le> 65534"
      and "segment_degree (quad_fe1d fe) = quad_degree fe"
      and "length (quad_rel_orient fe) = 4" and "e \<le> 3"
  shows "\<exists>M. Quad_EvalReferenceShapeFunctions fe (coords pts) = Inr M \<and>
           M ! quad_edge_row (quad_degree fe) e (quad_rel_orient fe ! e) i =
             map Some (map (quad_edge_value e (quad_rel_orient fe ! e) i) pts)"
proof -
  have p: "1 \<le> quad_degree fe" using assms(1) by simp
  from Quad_Eval_rows [OF p assms(2,3,4), of pts] obtain M where
    M: "Quad_EvalReferenceShapeFunctions fe (coords pts) = Inr M"
    and R: "rows_are M (Quad_NumRefShapeFunctions fe) (length pts)
       ((\<lambda>i. (quad_edge_row (quad_degree fe) 0 (quad_rel_orient fe ! 0) i,
              map (quad_edge_value 0 (quad_rel_orient fe ! 0) i) pts)) ` {..<quad_degree fe - 1} \<union>
        (\<lambda>i. (quad_edge_row (quad_degree fe) 1 (quad_rel_orient fe ! 1) i,
              map (quad_edge_value 1 (quad_rel_orient fe ! 1) i) pts)) ` {..<quad_degree fe - 1} \<union>
        (\<lambda>i. (quad_edge_row (quad_degree fe) 2 (quad_rel_orient fe ! 2) i,
              map (quad_edge_value 2 (quad_rel_orient fe ! 2) i) pts)) ` {..<quad_degree fe - 1} \<union>
        (\<lambda>i. (quad_edge_row (quad_degree fe) 3 (quad_rel_orient fe ! 3) i,
              map (quad_edge_value 3 (quad_rel_orient fe ! 3) i) pts)) ` {..<quad_degree fe - 1})"
    by blast
  from assms(5) have "e = 0 \<or> e = 1 \<or> e = 2 \<or> e = 3" by arith
  then have "(quad_edge_row (quad_degree fe) e (quad_rel_orient fe ! e) i,
       map (quad_edge_value e (quad_rel_orient fe ! e) i) pts) \<in>
       ((\<lambda>i. (quad_edge_row (quad_degree fe) 0 (quad_rel_orient fe ! 0) i,
              map (quad_edge_value 0 (quad_rel_orient fe ! 0) i) pts)) ` {..<quad_degree fe - 1} \<union>
        (\<lambda>i. (quad_edge_row (quad_degree fe) 1 (quad_rel_orient fe ! 1) i,
              map (quad_edge_value 1 (quad_rel_orient fe ! 1) i) pts)) ` {..<quad_degree fe - 1} \<union>
        (\<lambda>i. (quad_edge_row (quad_degree fe) 2 (quad_rel_orient fe ! 2) i,
              map (quad_edge_value 2 (quad_rel_orient fe ! 2) i) pts)) ` {..<quad_degree fe - 1} \<union>
        (\<lambda>i. (quad_edge_row (quad_degree fe) 3 (quad_rel_orient fe ! 3) i,
              map (quad_edge_value 3 (quad_rel_orient fe ! 3) i) pts)) ` {..<quad_degree fe - 1})"
    using assms(1) by auto
  from rows_areD [OF R this] M show ?thesis by blast
qed

lemma tria_flip:
  assumes i: "i < tria_degree tn - 1" and d: "tria_degree tp = tria_degree tn"
      and dB: "tria_degree tn \<le> 65534"
      and ln: "length (tria_rel_orient tn) = 3" and lp: "length (tria_rel_orient tp) = 3"
      and e: "e \<le> 2"
      and on: "tria_rel_orient tn ! e = negative" and op: "tria_rel_orient tp ! e = positive"
      and vn: "tria_edge_value e negative i a = integrated_legendre (i + 2) t"
      and vp: "tria_edge_value e positive i b = integrated_legendre (i + 2) t"
  shows "\<exists>Mn Mp v. LegendrePoly_integral (i + 2) t = Inr v \<and>
           Tria_EvalReferenceShapeFunctions tn (coords [a]) = Inr Mn \<and>
           Tria_EvalReferenceShapeFunctions tp (coords [b]) = Inr Mp \<and>
           Mn ! tria_edge_row (tria_degree tn) e negative i = [Some v] \<and>
           Mp ! tria_edge_row (tria_degree tn) e positive i = [Some v]"
proof -
  have i': "i < tria_degree tp - 1" and dB': "tria_degree tp \<le> 65534" using i d dB by simp_all
  have "i + 2 \<le> 1073741824" using i dB by simp
  from LegendrePoly_integral_value [OF this, of t]
    Tria_Eval_edge_row [OF i dB ln e, of "[a]"] Tria_Eval_edge_row [OF i' dB' lp e, of "[b]"]
  show ?thesis unfolding on op d using vn vp by auto
qed

lemma quad_flip:
  assumes i: "i < quad_degree qn - 1" and d: "quad_degree qp = quad_degree qn"
      and dB: "quad_degree qn \<le> 65534"
      and sn: "segment_degree (quad_fe1d qn) = quad_degree qn"
      and sp: "segment_degree (quad_fe1d qp) = quad_degree qp"
      and ln: "length (quad_rel_orient qn) = 4" and lp: "length (quad_rel_orient qp) = 4"
      and e: "e \<le> 3"
      and on: "quad_rel_orient qn ! e = negative" and op: "quad_rel_orient qp ! e = positive"
      and vn: "quad_edge_value e negative i a = integrated_legendre (i + 2) t"
      and vp: "quad_edge_value e positive i b = integrated_legendre (i + 2) t"
  shows "\<exists>Mn Mp v. LegendrePoly_integral (i + 2) t = Inr v \<and>
           Quad_EvalReferenceShapeFunctions qn (coords [a]) = Inr Mn \<and>
           Quad_EvalReferenceShapeFunctions qp (coords [b]) = Inr Mp \<and>
           Mn ! quad_edge_row (quad_degree qn) e negative i = [Some v] \<and>
           Mp ! quad_edge_row (quad_degree qn) e positive i = [Some v]"
proof -
  have i': "i < quad_degree qp - 1" and dB': "quad_degree qp \<le> 65534" using i d dB by simp_all
  have "i + 2 \<le> 1073741824" using i dB by simp
  from LegendrePoly_integral_value [OF this, of t]
    Quad_Eval_edge_row [OF i dB sn ln e, of "[a]"] Quad_Eval_edge_row [OF i' dB' sp lp e, of "[b]"]
  show ?thesis unfolding on op d using vn vp by auto
qed

text \<open>
  When the products of \<^verbatim>\<open>NumRefShapeFunctions\<close> wrap, the matrix has fewer rows than
  the loops write: the first row of a negative edge 0 of the triangle is row
  \<open>degree + 1\<close>, and the first row of the quadrilateral is row 0.
\<close>

lemma bind_fail_ex:
  assumes "\<exists>v. m = Inr v \<and> P v" and "\<And>v. P v \<Longrightarrow> f v = Inl e"
  shows "bind m f = Inl e"
  using assms by auto

lemma bind_Inl_left: "m = Inl e \<Longrightarrow> bind m f = Inl e"
  by simp

lemma for_loop_first_fail:
  assumes "0 < n" and "body 0 s = Inl e"
  shows "for_loop [0..<n] body s = Inl e"
  using assms by (simp add: upt_conv_Cons)

lemma Tria_Eval_row_missing:
  assumes dg: "2 \<le> tria_degree fe" and ro: "length (tria_rel_orient fe) = 3"
      and o0: "tria_rel_orient fe ! 0 = negative"
      and N3: "3 \<le> Tria_NumRefShapeFunctions fe"
      and NN: "Tria_NumRefShapeFunctions fe \<le> unsigned_sub (u32 (tria_degree fe + 1)) 0"
  shows "Tria_EvalReferenceShapeFunctions fe (coords pts) = Inl OutOfBounds"
proof -
  define d where "d = tria_degree fe"
  define N where "N = Tria_NumRefShapeFunctions fe"
  define o1 where "o1 = tria_rel_orient fe ! 1"
  define o2 where "o2 = tria_rel_orient fe ! 2"
  have u1: "unsigned_sub d 1 = d - 1" and d0: "0 < d - 1" using dg by (simp_all add: d_def)
  have N3': "3 \<le> N" using N3 by (simp add: N_def)
  have NN': "N \<le> unsigned_sub (u32 (d + 1)) 0" using NN by (simp add: N_def d_def)
  have eb: "0 + 2 \<le> (1073741824::nat)" by simp
  note tev = Tria_edge_expr_value [OF eb]
  have pv: "partial_vector (length pts) (length pts) (\<lambda>i. f (pts ! i)) = map Some (map f pts)"
    for f :: "real \<times> real \<Rightarrow> real" by (rule partial_vector_full)
  have ro_at: "rel_orient_at (tria_rel_orient fe) 0 = Inr negative"
    "rel_orient_at (tria_rel_orient fe) 1 = Inr o1"
    "rel_orient_at (tria_rel_orient fe) 2 = Inr o2"
    using ro o0 by (simp_all add: rel_orient_at_def o1_def o2_def)
  have np: "(negative = positive) = False" by simp
  have missing: "set_row (unsigned_sub (u32 (d + 1)) 0) r M = Inl OutOfBounds"
    if "rows_are M N n R" for r M n R
    using that NN' by (simp add: set_row_def rows_are_def)
  show ?thesis
    unfolding Tria_EvalReferenceShapeFunctions_def Let_def
    apply (simp only: row_coords cols_coords bind_Inr cwise_replicate_map cwise_map length_map)
    apply (subst fill6 [where
        ?g1.0 = "\<lambda>i. ratio (1 - fst (pts ! i) - snd (pts ! i)) (1 - fst (pts ! i) - snd (pts ! i) + fst (pts ! i))"
    and ?g2.0 = "\<lambda>i. ratio (fst (pts ! i)) (1 - fst (pts ! i) - snd (pts ! i) + fst (pts ! i))"
    and ?g3.0 = "\<lambda>i. ratio (fst (pts ! i)) (fst (pts ! i) + snd (pts ! i))"
    and ?g4.0 = "\<lambda>i. ratio (snd (pts ! i)) (fst (pts ! i) + snd (pts ! i))"
    and ?g5.0 = "\<lambda>i. ratio (snd (pts ! i)) (snd (pts ! i) + (1 - fst (pts ! i) - snd (pts ! i)))"
    and ?g6.0 = "\<lambda>i. ratio (1 - fst (pts ! i) - snd (pts ! i)) (snd (pts ! i) + (1 - fst (pts ! i) - snd (pts ! i)))"])
     apply (simp only: prod.case elem_Inr length_map nth_map guarded_ratio_eq bind_Inr)
    apply (simp only: prod.case bind_Inr unaryExpr_id ro_at u1
        pv [of "\<lambda>p. ratio (1 - fst p - snd p) (1 - fst p - snd p + fst p)"]
        pv [of "\<lambda>p. ratio (fst p) (1 - fst p - snd p + fst p)"]
        pv [of "\<lambda>p. ratio (fst p) (fst p + snd p)"]
        pv [of "\<lambda>p. ratio (snd p) (fst p + snd p)"]
        pv [of "\<lambda>p. ratio (snd p) (snd p + (1 - fst p - snd p))"]
        pv [of "\<lambda>p. ratio (1 - fst p - snd p) (snd p + (1 - fst p - snd p))"]
        N_def [symmetric] d_def [symmetric])
    apply (rule bind_fail_ex [OF set_row_single [OF rows_are_Matrix]])
       apply (use N3' in simp)
      apply simp
     apply simp
    apply (rule bind_fail_ex [OF set_row_single], assumption)
       apply (use N3' in simp)
      apply simp
     apply simp
    apply (rule bind_fail_ex [OF set_row_single], assumption)
       apply (use N3' in simp)
      apply simp
     apply simp
    apply (rule bind_Inl_left)
    apply (rule for_loop_first_fail [OF d0])
    apply (simp only: bind_Inr np if_False tev)
    apply (erule missing)
    done
qed

lemma Quad_Eval_no_rows:
  assumes dg: "1 \<le> quad_degree fe" and dgB: "quad_degree fe \<le> 1073741824"
      and fe1d: "segment_degree (quad_fe1d fe) = quad_degree fe"
      and N0: "Quad_NumRefShapeFunctions fe = 0"
  shows "Quad_EvalReferenceShapeFunctions fe (coords pts) = Inl OutOfBounds"
proof -
  define d where "d = quad_degree fe"
  have d1: "1 \<le> d" using dg by (simp add: d_def)
  have sd: "1 \<le> segment_degree (quad_fe1d fe)" using dg fe1d by simp
  have sdB: "segment_degree (quad_fe1d fe) \<le> 1073741824" using dgB fe1d by simp
  from Segment_Eval_row [OF sd sdB, of fst pts] obtain Sx where
    Sx: "Segment_EvalReferenceShapeFunctions (quad_fe1d fe) [map Some (map fst pts)] = Inr Sx"
    and rSx: "\<And>r. r \<le> d \<Longrightarrow> row Sx r = Inr (map (\<lambda>p. segment_shape r (fst p)) pts)"
    unfolding fe1d d_def by blast
  from Segment_Eval_row [OF sd sdB, of snd pts] obtain Sy where
    Sy: "Segment_EvalReferenceShapeFunctions (quad_fe1d fe) [map Some (map snd pts)] = Inr Sy"
    and rSy: "\<And>r. r \<le> d \<Longrightarrow> row Sy r = Inr (map (\<lambda>p. segment_shape r (snd p)) pts)"
    unfolding fe1d d_def by blast
  from Segment_Eval_row [OF sd sdB, of "\<lambda>p. 1 - fst p" pts] obtain Sfx where
    Sfx: "Segment_EvalReferenceShapeFunctions (quad_fe1d fe) [map Some (map (\<lambda>p. 1 - fst p) pts)]
          = Inr Sfx"
    by blast
  from Segment_Eval_row [OF sd sdB, of "\<lambda>p. 1 - snd p" pts] obtain Sfy where
    Sfy: "Segment_EvalReferenceShapeFunctions (quad_fe1d fe) [map Some (map (\<lambda>p. 1 - snd p) pts)]
          = Inr Sfy"
    by blast
  have rp: "row_product Sx 0 Sy 0 =
      Inr (map (\<lambda>p. segment_shape 0 (fst p) * segment_shape 0 (snd p)) pts)"
    by (simp add: row_product_value rSx rSy)
  have missing: "set_row 0 r (Matrix 0 n) = Inl OutOfBounds" for r n
    by (simp add: set_row_def Matrix_def)
  show ?thesis
    unfolding Quad_EvalReferenceShapeFunctions_def Let_def
    apply (simp only: row_coords cols_coords bind_Inr cwise_replicate_map Sx Sy Sfx Sfy rp N0
        missing)
    apply (rule bind_Inl_left, rule refl)
    done
qed





end
